theory Spec2Isabelle
  imports Main "HOL-Library.Product_Lexorder" "HOL-Library.List_Lexorder"
begin

section \<open>Python strings\<close>

text \<open>
  A Python \<open>str\<close> is a sequence of Unicode code points; it is modelled as a list of
  natural numbers, so that \<open>length\<close> counts what Python's \<open>len\<close> counts and the box
  drawing characters of the tree output are single elements. \<open>ascii\<close> reads an ASCII
  literal.
\<close>

type_synonym pystr = "nat list"

definition ascii :: "string \<Rightarrow> pystr" where
  "ascii s = map of_char s"

text \<open>
  The character database of the interpreter is not part of the program: it is a
  parameter \<open>U\<close> of every function that consults it. \<open>isalnum\<close> and \<open>isspace\<close> are
  \<open>str.isalnum\<close> and \<open>str.isspace\<close> of one code point, \<open>tolower\<close> is the full lowercase
  mapping of one code point, \<open>iscased\<close> and \<open>iscaseignorable\<close> are the two properties
  that decide the form of a lowercase sigma. The definitions assume nothing of the
  database; a theorem that needs a fact of it states that fact as a hypothesis.
\<close>

record unicode =
  isalnum :: "nat \<Rightarrow> bool"
  isspace :: "nat \<Rightarrow> bool"
  tolower :: "nat \<Rightarrow> pystr"
  iscased :: "nat \<Rightarrow> bool"
  iscaseignorable :: "nat \<Rightarrow> bool"

text \<open>
  \<open>str.lower\<close>: every code point is replaced by its lowercase mapping, except the
  capital sigma U+03A3, which becomes the final sigma U+03C2 when a cased code point
  stands before it and none after it (case-ignorable code points skipped on both sides),
  and the small sigma U+03C3 otherwise. \<open>before\<close> holds the code points already passed,
  the nearest first.
\<close>

definition final_sigma :: "unicode \<Rightarrow> pystr \<Rightarrow> pystr \<Rightarrow> bool" where
  "final_sigma U before after \<longleftrightarrow>
     (case dropWhile (iscaseignorable U) before of [] \<Rightarrow> False | c # _ \<Rightarrow> iscased U c) \<and>
     (case dropWhile (iscaseignorable U) after of [] \<Rightarrow> True | c # _ \<Rightarrow> \<not> iscased U c)"

fun lower_from :: "unicode \<Rightarrow> pystr \<Rightarrow> pystr \<Rightarrow> pystr" where
  "lower_from U before [] = []"
| "lower_from U before (c # cs) =
     (if c = 0x3A3 then [if final_sigma U before cs then 0x3C2 else 0x3C3] else tolower U c) @
     lower_from U (c # before) cs"

definition lower :: "unicode \<Rightarrow> pystr \<Rightarrow> pystr" where
  "lower U s = lower_from U [] s"

definition strip :: "unicode \<Rightarrow> pystr \<Rightarrow> pystr" where
  "strip U s = rev (dropWhile (isspace U) (rev (dropWhile (isspace U) s)))"

definition startswith :: "pystr \<Rightarrow> pystr \<Rightarrow> bool" where
  "startswith s p \<longleftrightarrow> take (length p) s = p"

text \<open>\<open>sep.join(items)\<close>: the items in order, \<open>sep\<close> between each two neighbours.\<close>

fun join :: "pystr \<Rightarrow> pystr list \<Rightarrow> pystr" where
  "join sep [] = []"
| "join sep [x] = x"
| "join sep (x # y # ys) = x @ sep @ join sep (y # ys)"

section \<open>sanitise\_filename\<close>

text \<open>
  The regular expression classes: \<open>\w\<close> is an alphanumeric code point or the underscore,
  \<open>\s\<close> is a whitespace code point.
\<close>

definition re_word :: "unicode \<Rightarrow> nat \<Rightarrow> bool" where
  "re_word U c \<longleftrightarrow> isalnum U c \<or> c = 0x5F"

definition re_space :: "unicode \<Rightarrow> nat \<Rightarrow> bool" where
  "re_space U c \<longleftrightarrow> isspace U c"

text \<open>\<open>re.sub(r'[^\w\s-]', '_', s)\<close>: each code point outside the class becomes \<open>_\<close>.\<close>

definition sub_invalid :: "unicode \<Rightarrow> pystr \<Rightarrow> pystr" where
  "sub_invalid U s = map (\<lambda>c. if re_word U c \<or> re_space U c \<or> c = 0x2D then c else 0x5F) s"

text \<open>
  \<open>re.sub(r'[-\s]+', '_', s)\<close>: each maximal run of hyphens and whitespace becomes one
  \<open>_\<close>. The flag says whether the scan is inside a run that was already replaced.
\<close>

fun sub_runs :: "unicode \<Rightarrow> bool \<Rightarrow> pystr \<Rightarrow> pystr" where
  "sub_runs U in_run [] = []"
| "sub_runs U in_run (c # cs) =
     (if c = 0x2D \<or> re_space U c
      then (if in_run then sub_runs U True cs else 0x5F # sub_runs U True cs)
      else c # sub_runs U False cs)"

definition sanitise_filename :: "unicode \<Rightarrow> pystr \<Rightarrow> pystr" where
  "sanitise_filename U filename =
     sub_runs U False (lower U (strip U (sub_invalid U filename)))"

section \<open>Rendering one file\<close>

text \<open>
  The text built by \<open>generate_markdown_from_file\<close> (and, with the same statements, by the
  single-file branch of \<open>generate_markdown_from_directory\<close>) from the relative path,
  the language tag and the contents read. An empty tag is falsy.
\<close>

definition markdown_output :: "pystr \<Rightarrow> pystr \<Rightarrow> pystr \<Rightarrow> pystr" where
  "markdown_output rel_path language file_contents =
     (ascii ''# File Name: '' @ rel_path @ [0x0A]) @
     ascii ''# File Contents:'' @ [0x0A] @
     (if language \<noteq> []
      then ascii ''```'' @ language @ [0x0A] @ file_contents @ [0x0A] @ ascii ''```'' @ [0x0A, 0x0A]
      else file_contents @ [0x0A, 0x0A])"

section \<open>Paths and extensions\<close>

text \<open>
  \<open>str.rfind\<close> of one character: the highest index where it stands, or \<open>-1\<close>.
\<close>

fun rfind :: "nat \<Rightarrow> pystr \<Rightarrow> int" where
  "rfind c [] = -1"
| "rfind c (x # xs) =
     (let r = rfind c xs in if 0 \<le> r then r + 1 else if x = c then 0 else -1)"

text \<open>
  \<open>os.path.splitext\<close> (the POSIX one): the extension starts at the last dot, unless
  that dot stands before the last slash or only dots stand between the last slash and
  it. \<open>has_non_dot\<close> is the loop that skips the leading dots of the file name.
\<close>

fun has_non_dot :: "pystr \<Rightarrow> bool" where
  "has_non_dot [] = False"
| "has_non_dot (c # cs) = (if c \<noteq> 0x2E then True else has_non_dot cs)"

definition splitext :: "pystr \<Rightarrow> pystr \<times> pystr" where
  "splitext p =
     (let sepIndex = rfind 0x2F p; dotIndex = rfind 0x2E p in
      if dotIndex > sepIndex \<and>
         has_non_dot (take (nat (dotIndex - (sepIndex + 1))) (drop (nat (sepIndex + 1)) p))
      then (take (nat dotIndex) p, drop (nat dotIndex) p)
      else (p, []))"

text \<open>
  A path below the input directory or below the output directory is the list of its
  components. \<open>basename\<close> is its last component, \<open>relpath\<close> the string that
  \<open>os.path.relpath\<close> gives for it.
\<close>

type_synonym path = "pystr list"

definition basename :: "path \<Rightarrow> pystr" where
  "basename p = (case rev p of [] \<Rightarrow> [] | n # _ \<Rightarrow> n)"

definition relpath :: "path \<Rightarrow> pystr" where
  "relpath p = join [0x2F] p"

section \<open>The input directory\<close>

text \<open>
  A directory is the list of its entries in the order \<open>os.scandir\<close> yields them; an
  entry is a file or a directory, with its name. Symbolic links are outside the model.
\<close>

datatype entry = File pystr | Dir pystr "entry list"

fun entry_name :: "entry \<Rightarrow> pystr" where
  "entry_name (File n) = n"
| "entry_name (Dir n es) = n"

fun is_dir :: "entry \<Rightarrow> bool" where
  "is_dir (File n) = False"
| "is_dir (Dir n es) = True"

text \<open>
  \<open>should_exclude_directory\<close> looks at the name of the path only. An absent or empty
  \<open>exclude_dirs\<close> leaves the three default names.
\<close>

definition should_exclude_directory :: "pystr \<Rightarrow> pystr list \<Rightarrow> bool" where
  "should_exclude_directory name exclude_dirs =
     (let default_exclude = [ascii ''.terraform'', ascii ''node_modules'', ascii ''.git''];
          full_exclude = (if exclude_dirs \<noteq> [] then default_exclude @ exclude_dirs
                          else default_exclude)
      in list_ex (\<lambda>exclude_dir. name = exclude_dir) full_exclude)"

text \<open>
  \<open>os.walk\<close>, top down: for each directory its path, the names of its subdirectories
  and the names of its other entries, then the same for each subdirectory in turn. The
  caller never edits the list of subdirectories, so every directory is walked.
\<close>

fun walk :: "path \<Rightarrow> entry list \<Rightarrow> (path \<times> pystr list \<times> pystr list) list"
  and walk_dirs :: "path \<Rightarrow> entry list \<Rightarrow> (path \<times> pystr list \<times> pystr list) list" where
  "walk root es =
     (root, [entry_name e. e \<leftarrow> es, is_dir e], [entry_name e. e \<leftarrow> es, \<not> is_dir e]) #
     walk_dirs root es"
| "walk_dirs root [] = []"
| "walk_dirs root (File n # es) = walk_dirs root es"
| "walk_dirs root (Dir n cs # es) = walk (root @ [n]) cs @ walk_dirs root es"

section \<open>discover\_extensions\<close>

text \<open>
  The dictionary \<open>extensions\<close> keeps its keys in the order of their first insertion:
  an association list. \<open>dict_incr k\<close> is \<open>extensions[k] = extensions.get(k, 0) + 1\<close>.
\<close>

fun dict_incr :: "pystr \<Rightarrow> (pystr \<times> nat) list \<Rightarrow> (pystr \<times> nat) list" where
  "dict_incr k [] = [(k, 1)]"
| "dict_incr k ((k', n) # d) =
     (if k' = k then (k', n + 1) # d else (k', n) # dict_incr k d)"

fun scan_directory ::
    "unicode \<Rightarrow> pystr list \<Rightarrow> entry list \<Rightarrow> (pystr \<times> nat) list \<Rightarrow> (pystr \<times> nat) list" where
  "scan_directory U exclude_dirs [] extensions = extensions"
| "scan_directory U exclude_dirs (Dir n cs # es) extensions =
     (if should_exclude_directory n exclude_dirs
      then scan_directory U exclude_dirs es extensions
      else scan_directory U exclude_dirs es (scan_directory U exclude_dirs cs extensions))"
| "scan_directory U exclude_dirs (File n # es) extensions =
     (if should_exclude_directory n exclude_dirs
      then scan_directory U exclude_dirs es extensions
      else let ext = lower U (snd (splitext n)) in
        if startswith n [0x2E]
        then scan_directory U exclude_dirs es (dict_incr n extensions)
        else scan_directory U exclude_dirs es (dict_incr ext extensions))"

definition discover_extensions ::
    "unicode \<Rightarrow> entry list \<Rightarrow> pystr list \<Rightarrow> (pystr \<times> nat) list" where
  "discover_extensions U input_dir exclude_dirs = scan_directory U exclude_dirs input_dir []"

text \<open>The extensions given on the command line, as \<open>main\<close> normalises them.\<close>

definition args_extensions :: "unicode \<Rightarrow> pystr list \<Rightarrow> pystr list" where
  "args_extensions U exts = map (lower U) exts"

section \<open>The tree\<close>

text \<open>
  \<open>sorted(os.scandir(path), key=lambda e: (not e.is_dir(), e.name))\<close>: a stable sort,
  directories first, names compared code point by code point.
\<close>

definition sort_entries :: "entry list \<Rightarrow> entry list" where
  "sort_entries es = sort_key (\<lambda>e. (\<not> is_dir e, entry_name e)) es"

lemma size_list_insort_key: "size_list f (insort_key k x xs) = size_list f (x # xs)"
  by (induction xs) auto

lemma size_list_sort_key: "size_list f (sort_key k xs) = size_list f xs"
  by (induction xs) (auto simp: size_list_insort_key)

lemma size_list_enumerate: "size_list (\<lambda>p. f (snd p)) (enumerate k xs) = size_list f xs"
  by (induction xs arbitrary: k) auto

text \<open>
  An item of the tree: the path of the entry, whether it is a directory (what
  \<open>os.path.isdir\<close> answers later) and the indent with the connector. \<open>for_entries\<close> is
  the loop over \<open>enumerate(entries)\<close>; \<open>len\<close> is \<open>len(entries)\<close>, excluded entries
  included.
\<close>

type_synonym tree_item = "path \<times> bool \<times> pystr"

function get_tree_structure :: "pystr list \<Rightarrow> path \<Rightarrow> pystr \<Rightarrow> entry list \<Rightarrow> tree_item list"
  and for_entries :: "pystr list \<Rightarrow> path \<Rightarrow> pystr \<Rightarrow> nat \<Rightarrow> (nat \<times> entry) list \<Rightarrow> tree_item list" where
  "get_tree_structure exclude_dirs path indent es =
     (let entries = sort_entries es
      in for_entries exclude_dirs path indent (length entries) (enumerate 0 entries))"
| "for_entries exclude_dirs path indent len [] = []"
| "for_entries exclude_dirs path indent len ((i, File n) # rest) =
     (if should_exclude_directory n exclude_dirs
      then for_entries exclude_dirs path indent len rest
      else let is_last = (int i = int len - 1);
               prefix = (if is_last then [0x2514, 0x2500, 0x2500, 0x20]
                         else [0x251C, 0x2500, 0x2500, 0x20])
           in (path @ [n], False, indent @ prefix) #
              for_entries exclude_dirs path indent len rest)"
| "for_entries exclude_dirs path indent len ((i, Dir n cs) # rest) =
     (if should_exclude_directory n exclude_dirs
      then for_entries exclude_dirs path indent len rest
      else let is_last = (int i = int len - 1);
               prefix = (if is_last then [0x2514, 0x2500, 0x2500, 0x20]
                         else [0x251C, 0x2500, 0x2500, 0x20])
           in (path @ [n], True, indent @ prefix) #
              get_tree_structure exclude_dirs (path @ [n])
                (indent @ (if is_last then ascii ''    '' else [0x2502, 0x20, 0x20, 0x20])) cs @
              for_entries exclude_dirs path indent len rest)"
  by pat_completeness auto
termination
  by (relation "measure (\<lambda>x. case x of
        Inl (ex, path, indent, es) \<Rightarrow> 2 * size_list size es + 1
      | Inr (ex, path, indent, len, items) \<Rightarrow> 2 * size_list (\<lambda>p. size (snd p)) items)")
     (auto simp: sort_entries_def size_list_sort_key size_list_enumerate)

text \<open>\<open>str(n)\<close> of a count.\<close>

fun py_str :: "nat \<Rightarrow> pystr" where
  "py_str n = (if n < 10 then [0x30 + n] else py_str (n div 10) @ [0x30 + n mod 10])"

declare py_str.simps [simp del]

definition tree_text :: "entry list \<Rightarrow> pystr list \<Rightarrow> pystr" where
  "tree_text directory exclude_dirs =
     (let tree_structure = get_tree_structure exclude_dirs [] [] directory;
          tree_lines = ascii ''.'' # map (\<lambda>(path, isdir, prefix). prefix @ basename path) tree_structure;
          dir_count = length (filter (\<lambda>(path, isdir, prefix). isdir) tree_structure);
          file_count = length (filter (\<lambda>(path, isdir, prefix). \<not> isdir) tree_structure)
      in join [0x0A]
           (tree_lines @
            [[0x0A] @ py_str dir_count @ ascii '' directories, '' @ py_str file_count @ ascii '' files'']))"

section \<open>The world: reading, writing, logging\<close>

text \<open>
  The effects of a run. \<open>contents\<close> gives, for a path below the input directory, what
  decoding the bytes of that file as UTF-8 gives: the code points, or the exception
  raised. \<open>reads\<close> lists the input files opened, in order. \<open>output_files\<close> holds the
  files written below the output directory. \<open>logs\<close> lists the calls of the logger: the
  level and the path the message names. \<open>can_mkdir\<close> and \<open>can_write\<close> say, for a path
  below the output directory, whether creating that directory and opening that file for
  writing succeed; a failure raises \<open>OSError\<close>. The input directory and the output
  directory are taken to be disjoint, and line endings are those of POSIX.
\<close>

datatype pyexn = UnicodeDecodeError | UnicodeEncodeError | OSError

datatype outcome = Returned | Raised pyexn

datatype level = DEBUG | INFO | WARNING | ERROR

record world =
  contents :: "path \<Rightarrow> pyexn + pystr"
  reads :: "path list"
  output_files :: "path \<rightharpoonup> pystr"
  logs :: "(level \<times> path) list"
  can_mkdir :: "path \<Rightarrow> bool"
  can_write :: "path \<Rightarrow> bool"

definition log :: "level \<Rightarrow> path \<Rightarrow> world \<Rightarrow> world" where
  "log l p w = w\<lparr>logs := logs w @ [(l, p)]\<rparr>"

text \<open>
  A file opened in text mode is read with universal newlines: \<open>\r\n\<close> and a lone \<open>\r\<close>
  both arrive as \<open>\n\<close>. The flag says that the code point before was a \<open>\r\<close>.
\<close>

fun universal_newlines :: "bool \<Rightarrow> pystr \<Rightarrow> pystr" where
  "universal_newlines after_cr [] = []"
| "universal_newlines after_cr (c # cs) =
     (if c = 0x0D then 0x0A # universal_newlines True cs
      else if c = 0x0A \<and> after_cr then universal_newlines False cs
      else c # universal_newlines False cs)"

definition read_text :: "path \<Rightarrow> world \<Rightarrow> (pyexn + pystr) \<times> world" where
  "read_text p w =
     (case contents w p of
        Inl e \<Rightarrow> Inl e
      | Inr decoded \<Rightarrow> Inr (universal_newlines False decoded),
      w\<lparr>reads := reads w @ [p]\<rparr>)"

text \<open>
  A text can be encoded as UTF-8 when it holds no surrogate code point; the name of a
  file whose bytes are not UTF-8 holds one. \<open>open(p, 'w')\<close> creates or empties the file;
  \<open>write\<close> encodes the whole text first and raises \<open>UnicodeEncodeError\<close>, with the file
  left empty, when that fails.
\<close>

definition encodable :: "pystr \<Rightarrow> bool" where
  "encodable s = list_all (\<lambda>c. c < 0xD800 \<or> 0xDFFF < c) s"

definition write_text :: "path \<Rightarrow> pystr \<Rightarrow> world \<Rightarrow> outcome \<times> world" where
  "write_text p d w =
     (if \<not> can_write w p then (Raised OSError, w)
      else if \<not> encodable d
      then (Raised UnicodeEncodeError, w\<lparr>output_files := (output_files w)(p \<mapsto> [])\<rparr>)
      else (Returned, w\<lparr>output_files := (output_files w)(p \<mapsto> d)\<rparr>))"

definition makedirs :: "path \<Rightarrow> world \<Rightarrow> outcome \<times> world" where
  "makedirs p w = (if can_mkdir w p then (Returned, w) else (Raised OSError, w))"

section \<open>generate\_markdown\_from\_file\<close>

text \<open>
  The \<open>try\<close> block first: read the input, build the text, write the output, log. Then
  the handlers: \<open>UnicodeDecodeError\<close> is logged as a warning, any other exception as an
  error; nothing is raised again.
\<close>

definition generate_markdown_from_file_try ::
    "path \<Rightarrow> path \<Rightarrow> pystr \<Rightarrow> pystr \<Rightarrow> world \<Rightarrow> outcome \<times> world" where
  "generate_markdown_from_file_try input_filepath output_filepath rel_path language w =
     (case read_text input_filepath w of
        (Inl e, w1) \<Rightarrow> (Raised e, w1)
      | (Inr file_contents, w1) \<Rightarrow>
          (case write_text output_filepath (markdown_output rel_path language file_contents) w1 of
             (Raised e, w2) \<Rightarrow> (Raised e, w2)
           | (Returned, w2) \<Rightarrow> (Returned, log INFO output_filepath w2)))"

definition generate_markdown_from_file ::
    "path \<Rightarrow> path \<Rightarrow> pystr \<Rightarrow> pystr \<Rightarrow> world \<Rightarrow> outcome \<times> world" where
  "generate_markdown_from_file input_filepath output_filepath rel_path language w =
     (case generate_markdown_from_file_try input_filepath output_filepath rel_path language w of
        (Raised UnicodeDecodeError, w') \<Rightarrow> (Returned, log WARNING input_filepath w')
      | (Raised UnicodeEncodeError, w') \<Rightarrow> (Returned, log ERROR input_filepath w')
      | (Raised OSError, w') \<Rightarrow> (Returned, log ERROR input_filepath w')
      | (Returned, w') \<Rightarrow> (Returned, w'))"

section \<open>generate\_tree\_output\<close>

definition generate_tree_output :: "entry list \<Rightarrow> path \<Rightarrow> pystr list \<Rightarrow> world \<Rightarrow> outcome \<times> world" where
  "generate_tree_output directory output_filename exclude_dirs w =
     (case write_text output_filename (tree_text directory exclude_dirs) w of
        (Raised e, w') \<Rightarrow> (Raised e, w')
      | (Returned, w') \<Rightarrow> (Returned, log INFO output_filename w'))"

section \<open>generate\_markdown\_from\_directory\<close>

text \<open>
  The body of the single-file branch for one selected file: the same \<open>try\<close> with the
  same handlers, the text appended to \<open>all_markdown_content\<close> instead of written.
\<close>

definition append_markdown ::
    "path \<Rightarrow> pystr \<Rightarrow> pystr \<Rightarrow> pystr list \<times> world \<Rightarrow> pystr list \<times> world" where
  "append_markdown input_filepath rel_path language st =
     (case st of (all_markdown_content, w) \<Rightarrow>
        (case read_text input_filepath w of
           (Inl UnicodeDecodeError, w1) \<Rightarrow> (all_markdown_content, log WARNING input_filepath w1)
         | (Inl UnicodeEncodeError, w1) \<Rightarrow> (all_markdown_content, log ERROR input_filepath w1)
         | (Inl OSError, w1) \<Rightarrow> (all_markdown_content, log ERROR input_filepath w1)
         | (Inr file_contents, w1) \<Rightarrow>
             (all_markdown_content @ [markdown_output rel_path language file_contents], w1)))"

text \<open>
  The loop over the files of one walked directory \<open>root\<close>. Only the creation of the
  parent directory, in per-file mode, can raise out of it.
\<close>

fun for_files ::
    "unicode \<Rightarrow> pystr list \<Rightarrow> bool \<Rightarrow> path \<Rightarrow> pystr list \<Rightarrow> pystr list \<times> world \<Rightarrow>
     outcome \<times> pystr list \<times> world" where
  "for_files U extensions single_file root [] st = (Returned, st)"
| "for_files U extensions single_file root (file # rest) st =
     (if file \<notin> set [ascii ''.DS_Store'', ascii ''.env''] then
        let ext = lower U (snd (splitext file)) in
        if ext \<in> set extensions \<or> (ext = [] \<and> file \<in> set extensions) then
          let input_filepath = root @ [file];
              rel_path = relpath input_filepath;
              sanitised_filename = sanitise_filename U rel_path;
              markdown_filename = sanitised_filename @ ascii ''.txt'';
              language = drop 1 ext
          in if \<not> single_file then
               (case makedirs root (snd st) of
                  (Raised e, w1) \<Rightarrow> (Raised e, fst st, w1)
                | (Returned, w1) \<Rightarrow>
                    for_files U extensions single_file root rest
                      (fst st,
                       snd (generate_markdown_from_file input_filepath
                              (root @ [markdown_filename]) rel_path language w1)))
             else for_files U extensions single_file root rest
                    (append_markdown input_filepath rel_path language st)
        else for_files U extensions single_file root rest st
      else for_files U extensions single_file root rest st)"

text \<open>
  The loop over \<open>os.walk(input_dir)\<close>. \<open>input_name\<close> is the name of the input
  directory itself, which is what \<open>Path(root).name\<close> is at the top.
\<close>

definition root_name :: "pystr \<Rightarrow> path \<Rightarrow> pystr" where
  "root_name input_name root = (if root = [] then input_name else basename root)"

fun for_walk ::
    "unicode \<Rightarrow> pystr \<Rightarrow> pystr list \<Rightarrow> bool \<Rightarrow> pystr list \<Rightarrow>
     (path \<times> pystr list \<times> pystr list) list \<Rightarrow>
     pystr list \<times> world \<Rightarrow> outcome \<times> pystr list \<times> world" where
  "for_walk U input_name extensions single_file exclude_dirs [] st = (Returned, st)"
| "for_walk U input_name extensions single_file exclude_dirs ((root, dirs, files) # rest) st =
     (if should_exclude_directory (root_name input_name root) exclude_dirs
      then for_walk U input_name extensions single_file exclude_dirs rest
             (fst st, log DEBUG root (snd st))
      else (case for_files U extensions single_file root files st of
              (Raised e, st') \<Rightarrow> (Raised e, st')
            | (Returned, st') \<Rightarrow>
                for_walk U input_name extensions single_file exclude_dirs rest st'))"

definition generate_markdown_from_directory ::
    "unicode \<Rightarrow> pystr \<Rightarrow> entry list \<Rightarrow> pystr list \<Rightarrow> bool \<Rightarrow> pystr list \<Rightarrow> world \<Rightarrow>
     outcome \<times> world" where
  "generate_markdown_from_directory U input_name input_dir extensions single_file exclude_dirs w =
     (case makedirs [] w of
        (Raised e, w1) \<Rightarrow> (Raised e, w1)
      | (Returned, w1) \<Rightarrow>
          (case for_walk U input_name extensions single_file exclude_dirs (walk [] input_dir)
                  ([], w1) of
             (Raised e, all_markdown_content, w2) \<Rightarrow> (Raised e, w2)
           | (Returned, all_markdown_content, w2) \<Rightarrow>
               (case (if single_file
                      then (case write_text [ascii ''all_files.txt'']
                                   (join (ascii ''---'' @ [0x0A]) all_markdown_content) w2 of
                              (Raised e, w3) \<Rightarrow> (Raised e, w3)
                            | (Returned, w3) \<Rightarrow> (Returned, log INFO [ascii ''all_files.txt''] w3))
                      else (Returned, w2)) of
                  (Raised e, w3) \<Rightarrow> (Raised e, w3)
                | (Returned, w3) \<Rightarrow>
                    generate_tree_output input_dir [ascii ''directory_tree.txt''] exclude_dirs w3)))"

section \<open>Facts of the character database\<close>

text \<open>
  The facts of the Unicode character database that the theorems use, each as a
  predicate on the parameter. All of them hold of the database of the interpreter.
  \<open>ascii_table\<close>: below U+0080 the alphanumeric code points are the digits and the
  letters, the whitespace ones are U+0009 to U+000D and U+001C to U+0020, and only the
  capital letters have a lowercase form of their own. \<open>lower_into_ascii\<close>: the lowercase
  form of a code point outside ASCII holds no ASCII code point but a small letter.
  \<open>lower_settled\<close>: a code point of a lowercase form is its own lowercase form (so the
  capital sigma, whose form is the small sigma, is none), and so is the final sigma.
  \<open>space_caseless\<close>: whitespace has no case. \<open>lower_keeps_words\<close>: the lowercase form
  of an alphanumeric code point other than U+0130 is alphanumeric, and both small
  sigmas are alphanumeric. \<open>lower_nonempty\<close>: no lowercase form is empty.
  \<open>lower_keeps_dots\<close>: the dot is its own lowercase form and stands in no other.
\<close>

definition ascii_table :: "unicode \<Rightarrow> bool" where
  "ascii_table U \<longleftrightarrow>
     (\<forall>c < 128.
        (isalnum U c \<longleftrightarrow>
           (0x30 \<le> c \<and> c \<le> 0x39) \<or> (0x41 \<le> c \<and> c \<le> 0x5A) \<or> (0x61 \<le> c \<and> c \<le> 0x7A)) \<and>
        (isspace U c \<longleftrightarrow> (0x09 \<le> c \<and> c \<le> 0x0D) \<or> (0x1C \<le> c \<and> c \<le> 0x20)) \<and>
        tolower U c = (if 0x41 \<le> c \<and> c \<le> 0x5A then [c + 0x20] else [c]))"

definition lower_into_ascii :: "unicode \<Rightarrow> bool" where
  "lower_into_ascii U \<longleftrightarrow>
     (\<forall>c d. 128 \<le> c \<and> d \<in> set (tolower U c) \<and> d < 128 \<longrightarrow> 0x61 \<le> d \<and> d \<le> 0x7A)"

definition lower_settled :: "unicode \<Rightarrow> bool" where
  "lower_settled U \<longleftrightarrow>
     (\<forall>c d. d \<in> set (tolower U c) \<longrightarrow> tolower U d = [d]) \<and>
     tolower U 0x3A3 = [0x3C3] \<and> tolower U 0x3C2 = [0x3C2]"

definition space_caseless :: "unicode \<Rightarrow> bool" where
  "space_caseless U \<longleftrightarrow> (\<forall>c. isspace U c \<longrightarrow> tolower U c = [c])"

definition lower_keeps_words :: "unicode \<Rightarrow> bool" where
  "lower_keeps_words U \<longleftrightarrow>
     (\<forall>c d. isalnum U c \<and> c \<noteq> 0x130 \<and> d \<in> set (tolower U c) \<longrightarrow> isalnum U d) \<and>
     isalnum U 0x3C2 \<and> isalnum U 0x3C3"

definition lower_nonempty :: "unicode \<Rightarrow> bool" where
  "lower_nonempty U \<longleftrightarrow> (\<forall>c. tolower U c \<noteq> [])"

definition lower_keeps_dots :: "unicode \<Rightarrow> bool" where
  "lower_keeps_dots U \<longleftrightarrow>
     tolower U 0x2E = [0x2E] \<and> (\<forall>c. c \<noteq> 0x2E \<longrightarrow> 0x2E \<notin> set (tolower U c))"

text \<open>
  The tables of the interpreter for U+0000 to U+00FF, U+0130, U+0307, U+03A3, U+03C2
  and U+03C3, every other code point taken as a caseless symbol. The closed examples run
  on them, on code points of that range; \<open>iscased\<close> is given where a code point is not
  case-ignorable, which is where it is consulted.
\<close>

definition latin1_table :: unicode where
  "latin1_table =
     \<lparr>isalnum = (\<lambda>c.
        (0x30 \<le> c \<and> c \<le> 0x39) \<or> (0x41 \<le> c \<and> c \<le> 0x5A) \<or> (0x61 \<le> c \<and> c \<le> 0x7A) \<or>
        c = 0xAA \<or> c = 0xB2 \<or> c = 0xB3 \<or> c = 0xB5 \<or> c = 0xB9 \<or> c = 0xBA \<or>
        (0xBC \<le> c \<and> c \<le> 0xBE) \<or> (0xC0 \<le> c \<and> c \<le> 0xD6) \<or> (0xD8 \<le> c \<and> c \<le> 0xF6) \<or>
        (0xF8 \<le> c \<and> c \<le> 0xFF) \<or> c = 0x130 \<or> c = 0x3A3 \<or> c = 0x3C2 \<or> c = 0x3C3),
      isspace = (\<lambda>c.
        (0x09 \<le> c \<and> c \<le> 0x0D) \<or> (0x1C \<le> c \<and> c \<le> 0x20) \<or> c = 0x85 \<or> c = 0xA0),
      tolower = (\<lambda>c.
        if (0x41 \<le> c \<and> c \<le> 0x5A) \<or> (0xC0 \<le> c \<and> c \<le> 0xD6) \<or> (0xD8 \<le> c \<and> c \<le> 0xDE)
        then [c + 0x20]
        else if c = 0x130 then [0x69, 0x307]
        else if c = 0x3A3 then [0x3C3]
        else [c]),
      iscased = (\<lambda>c.
        (0x41 \<le> c \<and> c \<le> 0x5A) \<or> (0x61 \<le> c \<and> c \<le> 0x7A) \<or> c = 0xAA \<or> c = 0xB5 \<or>
        c = 0xBA \<or> (0xC0 \<le> c \<and> c \<le> 0xD6) \<or> (0xD8 \<le> c \<and> c \<le> 0xF6) \<or>
        (0xF8 \<le> c \<and> c \<le> 0xFF) \<or> c = 0x130 \<or> c = 0x3A3 \<or> c = 0x3C2 \<or> c = 0x3C3),
      iscaseignorable = (\<lambda>c.
        c = 0x27 \<or> c = 0x2E \<or> c = 0x3A \<or> c = 0x5E \<or> c = 0x60 \<or> c = 0xA8 \<or> c = 0xAD \<or>
        c = 0xAF \<or> c = 0xB4 \<or> c = 0xB7 \<or> c = 0xB8 \<or> c = 0x307)\<rparr>"

section \<open>Notions used in the statements\<close>


definition stable_char :: "unicode \<Rightarrow> nat \<Rightarrow> bool" where
  "stable_char U c \<longleftrightarrow>
     re_word U c \<and> \<not> re_space U c \<and> c \<noteq> 0x2D \<and> tolower U c = [c] \<and> c \<noteq> 0x3A3"

definition dots :: "pystr \<Rightarrow> nat" where
  "dots s = length (filter (\<lambda>c. c = 0x2E) s)"

text \<open>
  The list \<open>[x1, s, x2, s, ..., xn]\<close>: the items with one separator between each two
  neighbours and none after the last.
\<close>

fun separated :: "'a \<Rightarrow> 'a list \<Rightarrow> 'a list" where
  "separated s [] = []"
| "separated s [x] = [x]"
| "separated s (x # y # ys) = x # s # separated s (y # ys)"

text \<open>
  The directories of the input tree, by path and not by traversal: \<open>dirs_at p es\<close>
  lists the entries of each directory found by following the names of \<open>p\<close> from the
  directory with the entries \<open>es\<close>. \<open>nondir_names\<close> are the names of the entries of a
  directory that are not directories.
\<close>

fun dirs_at :: "path \<Rightarrow> entry list \<Rightarrow> entry list list"
  and children_at :: "pystr \<Rightarrow> path \<Rightarrow> entry list \<Rightarrow> entry list list" where
  "dirs_at [] es = [es]"
| "dirs_at (n # p) es = children_at n p es"
| "children_at n p [] = []"
| "children_at n p (File m # es) = children_at n p es"
| "children_at n p (Dir m cs # es) = (if m = n then dirs_at p cs else []) @ children_at n p es"

definition nondir_names :: "entry list \<Rightarrow> pystr list" where
  "nondir_names es = [entry_name e. e \<leftarrow> es, \<not> is_dir e]"

text \<open>
  The test of the content pass on one file name (lines 242 to 244), and the same
  selection in the words of the specification: a file is taken when its name is neither
  \<open>.DS_Store\<close> nor \<open>.env\<close>, and its lowercase extension is selected, or its extension
  is empty and its full name is selected. \<open>selected_paths\<close> lists the files that pass
  the test, walked directory by walked directory, leaving out the directories whose own
  name is excluded. \<open>fragment_of\<close> is the fragment of one such file, built from the text
  that reading it gives, or nothing when reading it fails.
\<close>

definition selected :: "unicode \<Rightarrow> pystr list \<Rightarrow> pystr \<Rightarrow> bool" where
  "selected U extensions file \<longleftrightarrow>
     file \<notin> set [ascii ''.DS_Store'', ascii ''.env''] \<and>
     (lower U (snd (splitext file)) \<in> set extensions \<or>
      (lower U (snd (splitext file)) = [] \<and> file \<in> set extensions))"

definition spec_selected :: "unicode \<Rightarrow> pystr list \<Rightarrow> pystr \<Rightarrow> bool" where
  "spec_selected U extensions name \<longleftrightarrow>
     name \<noteq> ascii ''.DS_Store'' \<and> name \<noteq> ascii ''.env'' \<and>
     (lower U (snd (splitext name)) \<in> set extensions \<or>
      (snd (splitext name) = [] \<and> name \<in> set extensions))"

definition selected_paths ::
    "unicode \<Rightarrow> pystr \<Rightarrow> pystr list \<Rightarrow> pystr list \<Rightarrow> (path \<times> pystr list \<times> pystr list) list \<Rightarrow>
     path list" where
  "selected_paths U input_name extensions exclude_dirs walked =
     concat (map (\<lambda>(root, dirs, files).
       if should_exclude_directory (root_name input_name root) exclude_dirs then []
       else map (\<lambda>f. root @ [f]) (filter (selected U extensions) files)) walked)"

definition fragment_of :: "unicode \<Rightarrow> (path \<Rightarrow> pyexn + pystr) \<Rightarrow> path \<Rightarrow> pystr list" where
  "fragment_of U c p =
     (case c p of
        Inl e \<Rightarrow> []
      | Inr decoded \<Rightarrow>
          [markdown_output (relpath p) (drop 1 (lower U (snd (splitext (basename p)))))
             (universal_newlines False decoded)])"

text \<open>
  \<open>same_env\<close>: the second world reads the same input and has the same permissions as
  the first.
\<close>

definition same_env :: "world \<Rightarrow> world \<Rightarrow> bool" where
  "same_env w w' \<longleftrightarrow>
     contents w' = contents w \<and> can_mkdir w' = can_mkdir w \<and> can_write w' = can_write w"

text \<open>
  The key under which the specification has \<open>discover_extensions\<close> count a file: the
  full name of a dotfile, the lowercase extension of any other file. \<open>scanned_files\<close>
  are the names of the files that lie below no excluded name, in scan order.
\<close>

definition catalog_key :: "unicode \<Rightarrow> pystr \<Rightarrow> pystr" where
  "catalog_key U n = (if startswith n [0x2E] then n else lower U (snd (splitext n)))"

fun scanned_files :: "pystr list \<Rightarrow> entry list \<Rightarrow> pystr list" where
  "scanned_files exclude_dirs [] = []"
| "scanned_files exclude_dirs (Dir n cs # es) =
     (if should_exclude_directory n exclude_dirs then scanned_files exclude_dirs es
      else scanned_files exclude_dirs cs @ scanned_files exclude_dirs es)"
| "scanned_files exclude_dirs (File n # es) =
     (if should_exclude_directory n exclude_dirs then scanned_files exclude_dirs es
      else n # scanned_files exclude_dirs es)"

subsection \<open>Example inputs\<close>

text \<open>
  A fresh world: nothing read, nothing written, every directory and file of the output
  directory can be created. Input files that all hold the same text, and input files
  that cannot be decoded.
\<close>

definition ok_world :: "(path \<Rightarrow> pyexn + pystr) \<Rightarrow> world" where
  "ok_world c = \<lparr>contents = c, reads = [], output_files = Map.empty, logs = [],
                 can_mkdir = (\<lambda>p. True), can_write = (\<lambda>p. True)\<rparr>"

definition readable_as :: "pystr \<Rightarrow> path \<Rightarrow> pyexn + pystr" where
  "readable_as text p = Inr text"

definition undecodable :: "path \<Rightarrow> pyexn + pystr" where
  "undecodable p = Inl UnicodeDecodeError"

declare readable_as_def [simp] undecodable_def [simp]

definition nested_in_excluded :: "entry list" where
  "nested_in_excluded =
     [Dir (ascii ''node_modules'') [Dir (ascii ''lib'') [File (ascii ''index.js'')]],
      File (ascii ''app.js'')]"

definition last_sibling_excluded :: "entry list" where
  "last_sibling_excluded =
     [Dir (ascii ''docs'') [File (ascii ''a.md'')], Dir (ascii ''node_modules'') []]"

definition mixed_case_tree :: "entry list" where
  "mixed_case_tree =
     [File (ascii ''a.py''), File (ascii ''.env''), File (ascii ''.DS_Store''),
      File (ascii ''README''), File (ascii ''B.PY''), File (ascii ''notes.txt''),
      Dir (ascii ''.git'') [File (ascii ''c.py'')],
      Dir (ascii ''src'') [File (ascii ''d.py''), Dir (ascii ''util'') [File (ascii ''E.Py'')]]]"

definition dotfile_tree :: "entry list" where
  "dotfile_tree = [File (ascii ''.env.local''), File (ascii ''x.local'')]"

definition two_matching :: "entry list" where
  "two_matching =
     [File (ascii ''a.py''), File (ascii ''logo.png''), Dir (ascii ''src'') [File (ascii ''b.py'')]]"

definition two_matching_contents :: "path \<Rightarrow> pyexn + pystr" where
  "two_matching_contents p =
     (if p = [ascii ''a.py''] then Inr (ascii ''A'')
      else if p = [ascii ''src'', ascii ''b.py''] then Inr (ascii ''B'')
      else Inl UnicodeDecodeError)"

lemmas table_eval = latin1_table_def lower_def final_sigma_def

lemmas sanitise_eval =
  ascii_def sanitise_filename_def sub_invalid_def strip_def re_word_def re_space_def table_eval

lemmas eval_defs =
  ascii_def should_exclude_directory_def discover_extensions_def splitext_def table_eval
  startswith_def sort_entries_def tree_text_def basename_def relpath_def root_name_def
  generate_markdown_from_directory_def generate_markdown_from_file_def
  generate_markdown_from_file_try_def generate_tree_output_def append_markdown_def
  read_text_def write_text_def makedirs_def log_def ok_world_def Let_def encodable_def
  selected_paths_def selected_def fragment_of_def args_extensions_def nondir_names_def

section \<open>Properties of the string functions\<close>

lemma dropWhile_none: "\<forall>c \<in> set s. \<not> P c \<Longrightarrow> dropWhile P s = s"
  by (cases s) auto

lemma set_sub_runs:
  "set (sub_runs U b s) \<subseteq> insert 0x5F {c \<in> set s. \<not> (c = 0x2D \<or> re_space U c)}"
  by (induction s arbitrary: b) auto

lemma set_strip: "set (strip U s) \<subseteq> set s"
proof -
  have "set (strip U s) \<subseteq> set (dropWhile (isspace U) s)"
    unfolding strip_def using set_dropWhileD by fastforce
  also have "\<dots> \<subseteq> set s"
    using set_dropWhileD by fastforce
  finally show ?thesis .
qed

lemma sub_invalid_class:
  "c \<in> set (sub_invalid U s) \<Longrightarrow> re_word U c \<or> re_space U c \<or> c = 0x2D"
  by (auto simp: sub_invalid_def re_word_def)

lemma sub_invalid_origin: "c \<in> set (sub_invalid U s) \<Longrightarrow> c \<in> set s \<or> c = 0x5F"
  by (auto simp: sub_invalid_def split: if_splits)

lemma lower_from_set:
  "d \<in> set (lower_from U b s) \<Longrightarrow>
   (\<exists>c \<in> set s. c \<noteq> 0x3A3 \<and> d \<in> set (tolower U c)) \<or>
   (0x3A3 \<in> set s \<and> (d = 0x3C2 \<or> d = 0x3C3))"
proof (induction s arbitrary: b)
  case Nil
  then show ?case by simp
next
  case (Cons c cs)
  from Cons.prems
  consider "c = 0x3A3" "d = 0x3C2 \<or> d = 0x3C3"
    | "c \<noteq> 0x3A3" "d \<in> set (tolower U c)"
    | "d \<in> set (lower_from U (c # b) cs)"
    by (auto split: if_splits)
  then show ?case
  proof cases
    case 1
    then show ?thesis by simp
  next
    case 2
    then show ?thesis by auto
  next
    case 3
    from Cons.IH[OF 3] show ?thesis by auto
  qed
qed

lemma lower_from_fixed:
  "\<forall>c \<in> set s. c \<noteq> 0x3A3 \<and> tolower U c = [c] \<Longrightarrow> lower_from U b s = s"
  by (induction s arbitrary: b) simp_all



lemma lower_Nil_iff: "lower_nonempty U \<Longrightarrow> lower U s = [] \<longleftrightarrow> s = []"
  by (cases s) (auto simp: lower_def lower_nonempty_def)

lemma dots_append [simp]: "dots (a @ b) = dots a + dots b"
  by (simp add: dots_def)

lemma dots_zero: "0x2E \<notin> set s \<Longrightarrow> dots s = 0"
  by (induction s) (auto simp: dots_def)

lemma dots_lower_from:
  assumes "lower_keeps_dots U"
  shows "dots (lower_from U b s) = dots s"
proof (induction s arbitrary: b)
  case Nil
  then show ?case by simp
next
  case (Cons c cs)
  have "dots (if c = 0x3A3 then [if final_sigma U b cs then 0x3C2 else 0x3C3] else tolower U c) =
        dots [c]"
  proof (cases "c = 0x2E")
    case True
    with assms show ?thesis by (simp add: lower_keeps_dots_def)
  next
    case False
    with assms have "c \<noteq> 0x3A3 \<Longrightarrow> dots (tolower U c) = 0"
      by (simp add: lower_keeps_dots_def dots_zero)
    with False show ?thesis by (auto simp: dots_def)
  qed
  with Cons.IH[of "c # b"] show ?case by (simp add: dots_def)
qed

lemma dots_lower: "lower_keeps_dots U \<Longrightarrow> dots (lower U s) = dots s"
  by (simp add: lower_def dots_lower_from)

subsection \<open>The result of sanitise\_filename\<close>



lemma ascii_underscore:
  assumes "ascii_table U"
  shows "\<not> isspace U 0x5F \<and> \<not> isalnum U 0x5F \<and> tolower U 0x5F = [0x5F] \<and> tolower U 0x2D = [0x2D]"
  using assms by (simp add: ascii_table_def)

lemma sanitise_members:
  assumes "d \<in> set (sanitise_filename U x)"
  shows "d = 0x5F \<or>
         (\<not> re_space U d \<and> d \<noteq> 0x2D \<and>
          ((\<exists>c. (c \<in> set x \<or> c = 0x5F) \<and> c \<noteq> 0x3A3 \<and> (re_word U c \<or> re_space U c \<or> c = 0x2D) \<and>
                d \<in> set (tolower U c)) \<or>
           d = 0x3C2 \<or> d = 0x3C3))"
proof -
  let ?s = "strip U (sub_invalid U x)"
  from assms have "d = 0x5F \<or> (d \<in> set (lower U ?s) \<and> \<not> (d = 0x2D \<or> re_space U d))"
    using set_sub_runs[of U False "lower U ?s"] by (auto simp: sanitise_filename_def)
  moreover have "d \<in> set (lower U ?s) \<Longrightarrow>
      (\<exists>c. (c \<in> set x \<or> c = 0x5F) \<and> c \<noteq> 0x3A3 \<and> (re_word U c \<or> re_space U c \<or> c = 0x2D) \<and>
            d \<in> set (tolower U c)) \<or> d = 0x3C2 \<or> d = 0x3C3"
  proof -
    assume "d \<in> set (lower U ?s)"
    from lower_from_set[OF this[unfolded lower_def]]
    show ?thesis
    proof
      assume "\<exists>c \<in> set ?s. c \<noteq> 0x3A3 \<and> d \<in> set (tolower U c)"
      then obtain c where c: "c \<in> set ?s" "c \<noteq> 0x3A3" "d \<in> set (tolower U c)" by blast
      from c(1) set_strip[of U "sub_invalid U x"] have "c \<in> set (sub_invalid U x)" by blast
      with sub_invalid_class[of c U x] sub_invalid_origin[of c U x] c(2,3)
      show ?thesis by blast
    next
      assume "0x3A3 \<in> set ?s \<and> (d = 0x3C2 \<or> d = 0x3C3)"
      then show ?thesis by blast
    qed
  qed
  ultimately show ?thesis by blast
qed


lemma sanitise_stable_chars:
  assumes "ascii_table U" "lower_settled U" "space_caseless U" "lower_keeps_words U"
    and "0x130 \<notin> set x" and "d \<in> set (sanitise_filename U x)"
  shows "stable_char U d"
proof -
  from assms(2) have fx: "\<And>c d. d \<in> set (tolower U c) \<Longrightarrow> tolower U d = [d]"
    and sig: "tolower U 0x3A3 = [0x3C3]" and fin: "tolower U 0x3C2 = [0x3C2]"
    by (auto simp: lower_settled_def)
  from sig fx[of "0x3C3" "0x3A3"] have small: "tolower U 0x3C3 = [0x3C3]" by simp
  have us: "stable_char U 0x5F"
    using ascii_underscore[OF assms(1)] by (simp add: stable_char_def re_word_def re_space_def)
  from sanitise_members[OF assms(6)]
  consider "d = 0x5F"
    | c where "\<not> re_space U d" "d \<noteq> 0x2D" "c \<in> set x \<or> c = 0x5F"
        "re_word U c \<or> re_space U c \<or> c = 0x2D" "d \<in> set (tolower U c)"
    | "\<not> re_space U d" "d \<noteq> 0x2D" "d = 0x3C2 \<or> d = 0x3C3"
    by blast
  then show ?thesis
  proof cases
    case 1
    with us show ?thesis by simp
  next
    case 2
    from 2(5) have f: "tolower U d = [d]" by (rule fx)
    with sig have ns: "d \<noteq> 0x3A3" by auto
    from 2(3) assms(5) have n130: "c \<noteq> 0x130" by auto
    from 2(4) have "re_word U d"
    proof (elim disjE)
      assume "re_word U c"
      then show ?thesis
      proof (cases "c = 0x5F")
        case True
        with 2(5) ascii_underscore[OF assms(1)] show ?thesis by (simp add: re_word_def)
      next
        case False
        with \<open>re_word U c\<close> have "isalnum U c" by (simp add: re_word_def)
        with n130 2(5) assms(4) have "isalnum U d"
          unfolding lower_keeps_words_def by blast
        then show ?thesis by (simp add: re_word_def)
      qed
    next
      assume "re_space U c"
      with assms(3) 2(5) have "d = c" by (simp add: space_caseless_def re_space_def)
      with \<open>re_space U c\<close> 2(1) show ?thesis by simp
    next
      assume "c = 0x2D"
      with 2(5) ascii_underscore[OF assms(1)] 2(2) show ?thesis by simp
    qed
    with 2(1,2) f ns show ?thesis by (simp add: stable_char_def)
  next
    case 3
    with assms(4) fin small show ?thesis
      by (auto simp: stable_char_def lower_keeps_words_def re_word_def)
  qed
qed

lemma sub_runs_stable: "\<forall>c \<in> set s. stable_char U c \<Longrightarrow> sub_runs U b s = s"
  by (induction s arbitrary: b) (auto simp: stable_char_def)

lemma sub_invalid_stable: "\<forall>c \<in> set s. stable_char U c \<Longrightarrow> sub_invalid U s = s"
  by (induction s) (auto simp: stable_char_def sub_invalid_def)

lemma strip_stable: "\<forall>c \<in> set s. \<not> isspace U c \<Longrightarrow> strip U s = s"
  by (simp add: strip_def dropWhile_none)

lemma sanitise_stable:
  assumes "\<forall>c \<in> set s. stable_char U c"
  shows "sanitise_filename U s = s"
proof -
  have "sub_invalid U s = s" using assms by (rule sub_invalid_stable)
  moreover have "strip U s = s" using assms by (simp add: strip_stable stable_char_def re_space_def)
  moreover have "lower U s = s"
    unfolding lower_def using assms by (intro lower_from_fixed) (simp add: stable_char_def)
  moreover have "sub_runs U False s = s" using assms by (rule sub_runs_stable)
  ultimately show ?thesis by (simp add: sanitise_filename_def)
qed

subsection \<open>The tables of the examples satisfy the facts\<close>

lemma latin1_ascii_table: "ascii_table latin1_table"
  by (simp add: ascii_table_def latin1_table_def)

lemma latin1_lower_cases:
  "tolower latin1_table c = [c + 0x20] \<and>
     ((0x41 \<le> c \<and> c \<le> 0x5A) \<or> (0xC0 \<le> c \<and> c \<le> 0xD6) \<or> (0xD8 \<le> c \<and> c \<le> 0xDE)) \<or>
   tolower latin1_table c = [0x69, 0x307] \<and> c = 0x130 \<or>
   tolower latin1_table c = [0x3C3] \<and> c = 0x3A3 \<or>
   tolower latin1_table c = [c] \<and>
     \<not> ((0x41 \<le> c \<and> c \<le> 0x5A) \<or> (0xC0 \<le> c \<and> c \<le> 0xD6) \<or> (0xD8 \<le> c \<and> c \<le> 0xDE)) \<and>
     c \<noteq> 0x130 \<and> c \<noteq> 0x3A3"
  by (simp add: latin1_table_def)

lemma latin1_lower_into_ascii: "lower_into_ascii latin1_table"
  unfolding lower_into_ascii_def
proof (intro allI impI)
  fix c d :: nat
  assume a: "128 \<le> c \<and> d \<in> set (tolower latin1_table c) \<and> d < 128"
  from latin1_lower_cases[of c] a show "0x61 \<le> d \<and> d \<le> 0x7A"
    by (elim disjE conjE) auto
qed

lemma latin1_lower_image_fixed:
  assumes "d \<in> set (tolower latin1_table c)"
  shows "tolower latin1_table d = [d]"
proof -
  from latin1_lower_cases[of c] assms
  consider "d = c + 0x20" "(0x41 \<le> c \<and> c \<le> 0x5A) \<or> (0xC0 \<le> c \<and> c \<le> 0xD6) \<or> (0xD8 \<le> c \<and> c \<le> 0xDE)"
    | "d = 0x69 \<or> d = 0x307 \<or> d = 0x3C3"
    | "d = c" "tolower latin1_table c = [c]"
    by (elim disjE conjE) auto
  then show ?thesis
  proof cases
    case 1
    from 1(2) show ?thesis unfolding 1(1)
      by (elim disjE) (simp_all add: latin1_table_def)
  next
    case 2
    then show ?thesis by (elim disjE) (simp_all add: latin1_table_def)
  next
    case 3
    then show ?thesis by simp
  qed
qed

lemma latin1_lower_settled: "lower_settled latin1_table"
  unfolding lower_settled_def using latin1_lower_image_fixed
  by (simp add: latin1_table_def)

lemma latin1_space_caseless: "space_caseless latin1_table"
  unfolding space_caseless_def
proof (intro allI impI)
  fix c
  assume "isspace latin1_table c"
  then have "(0x09 \<le> c \<and> c \<le> 0x0D) \<or> (0x1C \<le> c \<and> c \<le> 0x20) \<or> c = 0x85 \<or> c = 0xA0"
    by (simp add: latin1_table_def)
  then show "tolower latin1_table c = [c]"
    by (elim disjE) (simp_all add: latin1_table_def)
qed

lemma latin1_lower_keeps_words: "lower_keeps_words latin1_table"
proof -
  have "isalnum latin1_table d"
    if "isalnum latin1_table c \<and> c \<noteq> 0x130 \<and> d \<in> set (tolower latin1_table c)" for c d
  proof -
    from latin1_lower_cases[of c] that
    consider "d = c + 0x20" "(0x41 \<le> c \<and> c \<le> 0x5A) \<or> (0xC0 \<le> c \<and> c \<le> 0xD6) \<or> (0xD8 \<le> c \<and> c \<le> 0xDE)"
      | "d = 0x3C3" | "d = c"
      by (elim disjE conjE) auto
    then show ?thesis
    proof cases
      case 1
      from 1(2) show ?thesis unfolding 1(1)
        by (elim disjE) (simp_all add: latin1_table_def)
    next
      case 2
      then show ?thesis by (simp add: latin1_table_def)
    next
      case 3
      with that show ?thesis by simp
    qed
  qed
  moreover have "isalnum latin1_table 0x3C2 \<and> isalnum latin1_table 0x3C3"
    by (simp add: latin1_table_def)
  ultimately show ?thesis unfolding lower_keeps_words_def by blast
qed

lemma latin1_lower_nonempty: "lower_nonempty latin1_table"
  by (simp add: lower_nonempty_def latin1_table_def)

lemma latin1_lower_keeps_dots: "lower_keeps_dots latin1_table"
  unfolding lower_keeps_dots_def
proof (intro conjI allI impI)
  show "tolower latin1_table 0x2E = [0x2E]" by (simp add: latin1_table_def)
next
  fix c :: nat
  assume "c \<noteq> 0x2E"
  with latin1_lower_cases[of c] show "0x2E \<notin> set (tolower latin1_table c)"
    by (elim disjE conjE) auto
qed

lemmas latin1_facts =
  latin1_ascii_table latin1_lower_into_ascii latin1_lower_settled latin1_space_caseless
  latin1_lower_keeps_words latin1_lower_nonempty latin1_lower_keeps_dots

section \<open>Properties of paths and extensions\<close>

lemma rfind_lower_bound: "- 1 \<le> rfind c p"
  by (induction p) (auto simp: Let_def)

lemma rfind_found:
  "rfind c p = i \<Longrightarrow> 0 \<le> i \<Longrightarrow> nat i < length p \<and> p ! nat i = c \<and> c \<notin> set (drop (Suc (nat i)) p)"
proof (induction p arbitrary: i)
  case Nil
  then show ?case by simp
next
  case (Cons x xs)
  show ?case
  proof (cases "0 \<le> rfind c xs")
    case True
    with Cons.prems have i: "i = rfind c xs + 1" by (simp add: Let_def)
    from Cons.IH[OF refl True] have "nat (rfind c xs) < length xs \<and> xs ! nat (rfind c xs) = c \<and>
        c \<notin> set (drop (Suc (nat (rfind c xs))) xs)" .
    moreover have "nat i = Suc (nat (rfind c xs))" using i True by simp
    ultimately show ?thesis by simp
  next
    case False
    with Cons.prems have i: "i = 0" "x = c" by (auto simp: Let_def split: if_splits)
    have "c \<notin> set xs"
    proof
      assume "c \<in> set xs"
      then have "0 \<le> rfind c xs"
        by (induction xs) (auto simp: Let_def)
      with False show False by simp
    qed
    with i show ?thesis by simp
  qed
qed

lemma splitext_ext_one_dot:
  assumes "snd (splitext p) \<noteq> []"
  shows "dots (snd (splitext p)) = 1"
proof -
  from assms have d: "0 \<le> rfind 0x2E p" and e: "snd (splitext p) = drop (nat (rfind 0x2E p)) p"
    using rfind_lower_bound[of "0x2F" p]
    by (auto simp: splitext_def Let_def split: if_splits)
  from rfind_found[OF refl d]
  have lt: "nat (rfind 0x2E p) < length p" and at: "p ! nat (rfind 0x2E p) = 0x2E"
    and rest: "0x2E \<notin> set (drop (Suc (nat (rfind 0x2E p))) p)"
    by auto
  have "drop (nat (rfind 0x2E p)) p = p ! nat (rfind 0x2E p) # drop (Suc (nat (rfind 0x2E p))) p"
    using lt by (rule Cons_nth_drop_Suc[symmetric])
  with e at have "snd (splitext p) = [0x2E] @ drop (Suc (nat (rfind 0x2E p))) p" by simp
  then have "dots (snd (splitext p)) = dots [0x2E] + dots (drop (Suc (nat (rfind 0x2E p))) p)"
    by (simp only: dots_append)
  with dots_zero[OF rest] show ?thesis by (simp add: dots_def)
qed

lemma splitext_dots: "dots (snd (splitext p)) \<le> 1"
  using splitext_ext_one_dot[of p] by (cases "snd (splitext p) = []") (simp_all add: dots_def)

lemma dotfile_ext_dots:
  assumes "startswith name [0x2E]" "snd (splitext name) \<noteq> []"
  shows "2 \<le> dots name"
proof -
  let ?d = "rfind 0x2E name" and ?s = "rfind 0x2F name"
  from assms(2) have gt: "?s < ?d"
    and nd: "has_non_dot (take (nat (?d - (?s + 1))) (drop (nat (?s + 1)) name))"
    by (auto simp: splitext_def Let_def split: if_splits)
  from gt rfind_lower_bound[of "0x2F" name] have d0: "0 \<le> ?d" by linarith
  have "?d \<noteq> 0"
  proof
    assume z: "?d = 0"
    with gt rfind_lower_bound[of "0x2F" name] have "?s = -1" by linarith
    with z nd show False by simp
  qed
  with d0 have d1: "1 \<le> nat ?d" by linarith
  from rfind_found[OF refl d0] have lt: "nat ?d < length name" and at: "name ! nat ?d = 0x2E" by auto
  from assms(1) obtain r where n: "name = 0x2E # r"
    by (cases name) (auto simp: startswith_def)
  have "name = take (nat ?d) name @ drop (nat ?d) name" by simp
  moreover have "take (nat ?d) name = 0x2E # take (nat ?d - 1) r"
    using n d1 by (cases "nat ?d") auto
  moreover have "drop (nat ?d) name = 0x2E # drop (Suc (nat ?d)) name"
    using Cons_nth_drop_Suc[OF lt, symmetric] at by simp
  ultimately have "name = (0x2E # take (nat ?d - 1) r) @ (0x2E # drop (Suc (nat ?d)) name)"
    by simp
  then have "dots name = dots ((0x2E # take (nat ?d - 1) r) @ (0x2E # drop (Suc (nat ?d)) name))"
    by simp
  then show ?thesis by (simp add: dots_def)
qed

lemma join_separated: "join sep xs = concat (separated sep xs)"
  by (induction sep xs rule: join.induct) auto

lemma length_separated: "length (separated s xs) = 2 * length xs - 1"
  by (induction s xs rule: separated.induct) auto

lemma separated_even: "i < length xs \<Longrightarrow> separated s xs ! (2 * i) = xs ! i"
proof (induction s xs arbitrary: i rule: separated.induct)
  case (3 s x y ys)
  then show ?case by (cases i) auto
qed auto

lemma separated_odd: "Suc i < length xs \<Longrightarrow> separated s xs ! Suc (2 * i) = s"
proof (induction s xs arbitrary: i rule: separated.induct)
  case (3 s x y ys)
  then show ?case by (cases i) auto
qed auto

lemma basename_snoc [simp]: "basename (root @ [f]) = f"
  by (simp add: basename_def)

section \<open>Properties of discover\_extensions\<close>

lemma dict_incr_keys: "fst ` set (dict_incr k d) = insert k (fst ` set d)"
  by (induction k d rule: dict_incr.induct) auto

lemma scan_directory_key_set:
  "fst ` set (scan_directory U ex es d) = fst ` set d \<union> catalog_key U ` set (scanned_files ex es)"
proof (induction U ex es d rule: scan_directory.induct)
  case (1 U ex d)
  then show ?case by simp
next
  case (2 U ex n cs es d)
  show ?case
  proof (cases "should_exclude_directory n ex")
    case True
    from "2.IH"(1)[OF True] True show ?thesis by simp
  next
    case False
    from "2.IH"(2)[OF False] "2.IH"(3)[OF False] False show ?thesis
      by (simp add: Un_assoc image_Un)
  qed
next
  case (3 U ex n es d)
  show ?case
  proof (cases "should_exclude_directory n ex")
    case True
    from "3.IH"(1)[OF True] True show ?thesis by simp
  next
    case False
    show ?thesis
    proof (cases "startswith n [0x2E]")
      case True
      from "3.IH"(2)[OF False refl True] False True show ?thesis
        by (simp add: Let_def dict_incr_keys catalog_key_def)
    next
      case nd: False
      from "3.IH"(3)[OF False refl nd] False nd show ?thesis
        by (simp add: Let_def dict_incr_keys catalog_key_def)
    qed
  qed
qed

section \<open>Properties of the content pass\<close>

lemma universal_newlines_no_cr: "0x0D \<notin> set s \<Longrightarrow> universal_newlines False s = s"
  by (induction s) auto

lemma selected_spec: "lower_nonempty U \<Longrightarrow> selected U extensions f = spec_selected U extensions f"
  by (auto simp: selected_def spec_selected_def lower_Nil_iff)

lemma gmff_effect:
  "fst (generate_markdown_from_file i out rel lang w) = Returned \<and>
   reads (snd (generate_markdown_from_file i out rel lang w)) = reads w @ [i] \<and>
   same_env w (snd (generate_markdown_from_file i out rel lang w))"
  by (auto simp: generate_markdown_from_file_def generate_markdown_from_file_try_def
      read_text_def write_text_def log_def same_env_def
      split: sum.splits pyexn.splits prod.splits outcome.splits)

lemma gmff_unreadable:
  "contents w i = Inl e \<Longrightarrow>
   output_files (snd (generate_markdown_from_file i out rel lang w)) = output_files w"
  by (cases e) (simp_all add: generate_markdown_from_file_def generate_markdown_from_file_try_def
      read_text_def log_def)

lemma gmff_unreadable_log:
  "contents w i = Inl e \<Longrightarrow>
   logs (snd (generate_markdown_from_file i out p g w)) =
     logs w @ [(case e of UnicodeDecodeError \<Rightarrow> WARNING | UnicodeEncodeError \<Rightarrow> ERROR
                | OSError \<Rightarrow> ERROR, i)]"
  by (cases e) (simp_all add: generate_markdown_from_file_def generate_markdown_from_file_try_def
      read_text_def log_def)

lemma gmff_readable:
  "contents w i = Inr decoded \<Longrightarrow> can_write w out \<Longrightarrow>
   encodable (markdown_output p g (universal_newlines False decoded)) \<Longrightarrow>
   output_files (snd (generate_markdown_from_file i out p g w)) out =
     Some (markdown_output p g (universal_newlines False decoded))"
  by (simp add: generate_markdown_from_file_def generate_markdown_from_file_try_def
      read_text_def write_text_def log_def)

lemma append_markdown_readable:
  "contents w i = Inr decoded \<Longrightarrow>
   fst (append_markdown i p g (acc, w)) =
     acc @ [markdown_output p g (universal_newlines False decoded)]"
  by (simp add: append_markdown_def read_text_def)

lemma append_markdown_effect:
  "append_markdown (root @ [f]) (relpath (root @ [f])) (drop 1 (lower U (snd (splitext f)))) (acc, w) =
     (acc', w') \<Longrightarrow>
   acc' = acc @ fragment_of U (contents w) (root @ [f]) \<and> reads w' = reads w @ [root @ [f]] \<and>
   output_files w' = output_files w \<and> same_env w w'"
  by (auto simp: append_markdown_def read_text_def log_def same_env_def fragment_of_def
      split: sum.splits pyexn.splits prod.splits)

lemma for_files_reads:
  assumes "single_file \<or> (\<forall>p. can_mkdir w p)"
  shows "fst (for_files U extensions single_file root fs (acc, w)) = Returned \<and>
         reads (snd (snd (for_files U extensions single_file root fs (acc, w)))) =
           reads w @ map (\<lambda>f. root @ [f]) (filter (selected U extensions) fs) \<and>
         same_env w (snd (snd (for_files U extensions single_file root fs (acc, w))))"
  using assms
proof (induction fs arbitrary: acc w)
  case Nil
  then show ?case by (simp add: same_env_def)
next
  case (Cons f fs)
  show ?case
  proof (cases "selected U extensions f")
    case False
    then have "for_files U extensions single_file root (f # fs) (acc, w) =
               for_files U extensions single_file root fs (acc, w)"
      by (auto simp: selected_def Let_def)
    with False Cons show ?thesis by simp
  next
    case True
    then have sel: "f \<notin> set [ascii ''.DS_Store'', ascii ''.env'']"
      "lower U (snd (splitext f)) \<in> set extensions \<or> (lower U (snd (splitext f)) = [] \<and> f \<in> set extensions)"
      by (auto simp: selected_def)
    show ?thesis
    proof (cases single_file)
      case True
      obtain acc' w' where am: "append_markdown (root @ [f]) (relpath (root @ [f]))
          (drop 1 (lower U (snd (splitext f)))) (acc, w) = (acc', w')"
        by (cases "append_markdown (root @ [f]) (relpath (root @ [f]))
          (drop 1 (lower U (snd (splitext f)))) (acc, w)") auto
      from append_markdown_effect[OF am]
      have e: "reads w' = reads w @ [root @ [f]]" "same_env w w'" by auto
      have step: "for_files U extensions single_file root (f # fs) (acc, w) =
                  for_files U extensions single_file root fs (acc', w')"
        using sel True am by (simp add: Let_def)
      have "single_file \<or> (\<forall>p. can_mkdir w' p)" using True by simp
      from Cons.IH[OF this, of acc'] e \<open>selected U extensions f\<close> show ?thesis
        unfolding step by (auto simp: same_env_def)
    next
      case False
      with Cons.prems have mk: "\<forall>p. can_mkdir w p" by simp
      let ?w' = "snd (generate_markdown_from_file (root @ [f])
                  (root @ [sanitise_filename U (relpath (root @ [f])) @ ascii ''.txt''])
                  (relpath (root @ [f])) (drop 1 (lower U (snd (splitext f)))) w)"
      have step: "for_files U extensions single_file root (f # fs) (acc, w) =
                  for_files U extensions single_file root fs (acc, ?w')"
        using sel False mk by (simp add: Let_def makedirs_def)
      have e: "reads ?w' = reads w @ [root @ [f]]" "same_env w ?w'"
        using gmff_effect by auto
      then have "single_file \<or> (\<forall>p. can_mkdir ?w' p)" using mk by (simp add: same_env_def)
      from Cons.IH[OF this, of acc] e \<open>selected U extensions f\<close> show ?thesis
        unfolding step by (auto simp: same_env_def)
    qed
  qed
qed

lemma same_env_refl [simp]: "same_env w w"
  by (simp add: same_env_def)

lemma same_env_trans: "same_env w w' \<Longrightarrow> same_env w' w'' \<Longrightarrow> same_env w w''"
  by (simp add: same_env_def)

lemma for_walk_reads:
  assumes "single_file \<or> (\<forall>p. can_mkdir w p)"
  shows "fst (for_walk U input_name extensions single_file exclude_dirs ws (acc, w)) = Returned \<and>
         reads (snd (snd (for_walk U input_name extensions single_file exclude_dirs ws (acc, w)))) =
           reads w @ selected_paths U input_name extensions exclude_dirs ws \<and>
         same_env w (snd (snd (for_walk U input_name extensions single_file exclude_dirs ws (acc, w))))"
  using assms
proof (induction ws arbitrary: acc w)
  case Nil
  then show ?case by (simp add: selected_paths_def)
next
  case (Cons x ws)
  obtain root dirs fs where x: "x = (root, dirs, fs)" by (cases x) auto
  show ?case
  proof (cases "should_exclude_directory (root_name input_name root) exclude_dirs")
    case True
    let ?w' = "log DEBUG root w"
    have e: "reads ?w' = reads w" "same_env w ?w'"
      by (simp_all add: log_def same_env_def)
    then have "single_file \<or> (\<forall>p. can_mkdir ?w' p)"
      using Cons.prems by (simp add: same_env_def)
    from Cons.IH[OF this, of acc] e True show ?thesis
      by (simp add: x selected_paths_def same_env_def)
  next
    case False
    let ?r = "for_files U extensions single_file root fs (acc, w)"
    obtain acc' w' where r: "?r = (Returned, acc', w')"
      using for_files_reads[OF Cons.prems, of U extensions root fs acc]
      by (cases ?r) auto
    from for_files_reads[OF Cons.prems, of U extensions root fs acc] r
    have e: "reads w' = reads w @ map (\<lambda>f. root @ [f]) (filter (selected U extensions) fs)"
      "same_env w w'" by auto
    then have "single_file \<or> (\<forall>p. can_mkdir w' p)"
      using Cons.prems by (simp add: same_env_def)
    from Cons.IH[OF this, of acc'] e False r show ?thesis
      by (simp add: x selected_paths_def same_env_def)
  qed
qed

lemma for_files_single:
  "fst (snd (for_files U extensions True root fs (acc, w))) =
     acc @ concat (map (fragment_of U (contents w)) (map (\<lambda>f. root @ [f]) (filter (selected U extensions) fs))) \<and>
   output_files (snd (snd (for_files U extensions True root fs (acc, w)))) = output_files w"
proof (induction fs arbitrary: acc w)
  case Nil
  then show ?case by simp
next
  case (Cons f fs)
  show ?case
  proof (cases "selected U extensions f")
    case False
    then have "for_files U extensions True root (f # fs) (acc, w) =
               for_files U extensions True root fs (acc, w)"
      by (auto simp: selected_def Let_def)
    with False Cons show ?thesis by simp
  next
    case True
    then have sel: "f \<notin> set [ascii ''.DS_Store'', ascii ''.env'']"
      "lower U (snd (splitext f)) \<in> set extensions \<or> (lower U (snd (splitext f)) = [] \<and> f \<in> set extensions)"
      by (auto simp: selected_def)
    obtain acc' w' where am: "append_markdown (root @ [f]) (relpath (root @ [f]))
        (drop 1 (lower U (snd (splitext f)))) (acc, w) = (acc', w')"
      by (cases "append_markdown (root @ [f]) (relpath (root @ [f]))
        (drop 1 (lower U (snd (splitext f)))) (acc, w)") auto
    from append_markdown_effect[OF am]
    have e: "acc' = acc @ fragment_of U (contents w) (root @ [f])"
      "output_files w' = output_files w" "contents w' = contents w"
      by (auto simp: same_env_def)
    have step: "for_files U extensions True root (f # fs) (acc, w) =
                for_files U extensions True root fs (acc', w')"
      using sel am by (simp add: Let_def)
    from Cons.IH[of acc' w'] e True show ?thesis
      unfolding step by simp
  qed
qed

lemma for_walk_single:
  "fst (snd (for_walk U input_name extensions True exclude_dirs ws (acc, w))) =
     acc @ concat (map (fragment_of U (contents w)) (selected_paths U input_name extensions exclude_dirs ws)) \<and>
   output_files (snd (snd (for_walk U input_name extensions True exclude_dirs ws (acc, w)))) = output_files w"
proof (induction ws arbitrary: acc w)
  case Nil
  then show ?case by (simp add: selected_paths_def)
next
  case (Cons x ws)
  obtain root dirs fs where x: "x = (root, dirs, fs)" by (cases x) auto
  show ?case
  proof (cases "should_exclude_directory (root_name input_name root) exclude_dirs")
    case True
    have e: "output_files (log DEBUG root w) = output_files w" "contents (log DEBUG root w) = contents w"
      by (simp_all add: log_def)
    from Cons.IH[of acc "log DEBUG root w"] e True show ?thesis
      by (simp add: x selected_paths_def)
  next
    case False
    let ?r = "for_files U extensions True root fs (acc, w)"
    have ok: "True \<or> (\<forall>p. can_mkdir w p)" by simp
    obtain acc' w' where r: "?r = (Returned, acc', w')"
      using for_files_reads[OF ok, of U extensions root fs acc]
      by (cases ?r) auto
    from for_files_reads[OF ok, of U extensions root fs acc] for_files_single[of U extensions root fs acc w] r
    have e: "acc' = acc @ concat (map (fragment_of U (contents w)) (map (\<lambda>f. root @ [f]) (filter (selected U extensions) fs)))"
      "output_files w' = output_files w" "contents w' = contents w"
      by (auto simp: same_env_def)
    from Cons.IH[of acc' w'] e False r show ?thesis
      by (simp add: x selected_paths_def)
  qed
qed

lemma generate_tree_output_effect:
  "reads (snd (generate_tree_output t p ex w)) = reads w \<and>
   (\<forall>q. q \<noteq> p \<longrightarrow> output_files (snd (generate_tree_output t p ex w)) q = output_files w q)"
  by (simp add: generate_tree_output_def write_text_def log_def split: prod.splits outcome.splits)

lemma gmfd_reads:
  assumes "\<forall>p. can_mkdir w p"
  shows "reads (snd (generate_markdown_from_directory U input_name input_dir extensions single_file exclude_dirs w)) =
         reads w @ selected_paths U input_name extensions exclude_dirs (walk [] input_dir)"
proof -
  let ?r = "for_walk U input_name extensions single_file exclude_dirs (walk [] input_dir) ([], w)"
  have ok: "single_file \<or> (\<forall>p. can_mkdir w p)" using assms by simp
  obtain acc w2 where r: "?r = (Returned, acc, w2)"
    using for_walk_reads[OF ok, of U input_name extensions exclude_dirs "walk [] input_dir" "[]"]
    by (cases ?r) auto
  from for_walk_reads[OF ok, of U input_name extensions exclude_dirs "walk [] input_dir" "[]"] r
  have e: "reads w2 = reads w @ selected_paths U input_name extensions exclude_dirs (walk [] input_dir)"
    by simp
  show ?thesis
    using assms r e generate_tree_output_effect
    by (simp add: generate_markdown_from_directory_def makedirs_def write_text_def log_def
        split: prod.splits outcome.splits)
qed

lemma gmfd_all_files:
  assumes "can_mkdir w []" "can_write w [ascii ''all_files.txt'']"
    and "encodable (join (ascii ''---'' @ [0x0A])
           (concat (map (fragment_of U (contents w))
              (selected_paths U input_name extensions exclude_dirs (walk [] input_dir)))))"
  shows "output_files (snd (generate_markdown_from_directory U input_name input_dir extensions True
                              exclude_dirs w)) [ascii ''all_files.txt''] =
         Some (join (ascii ''---'' @ [0x0A])
           (concat (map (fragment_of U (contents w))
              (selected_paths U input_name extensions exclude_dirs (walk [] input_dir)))))"
proof -
  let ?r = "for_walk U input_name extensions True exclude_dirs (walk [] input_dir) ([], w)"
  have ok: "True \<or> (\<forall>p. can_mkdir w p)" by simp
  obtain acc w2 where r: "?r = (Returned, acc, w2)"
    using for_walk_reads[OF ok, of U input_name extensions exclude_dirs "walk [] input_dir" "[]"]
    by (cases ?r) auto
  from for_walk_reads[OF ok, of U input_name extensions exclude_dirs "walk [] input_dir" "[]"]
    for_walk_single[of U input_name extensions exclude_dirs "walk [] input_dir" "[]" w] r
  have e: "acc = concat (map (fragment_of U (contents w))
              (selected_paths U input_name extensions exclude_dirs (walk [] input_dir)))"
    "can_write w2 = can_write w"
    by (simp_all add: same_env_def)
  have ne: "[ascii ''all_files.txt''] \<noteq> [ascii ''directory_tree.txt'']"
    by (simp add: ascii_def)
  let ?w3 = "log INFO [ascii ''all_files.txt'']
      (w2\<lparr>output_files := (output_files w2)([ascii ''all_files.txt''] \<mapsto> join (ascii ''---'' @ [0x0A]) acc)\<rparr>)"
  have enc: "encodable (join (ascii ''---'' @ [0x0A]) acc)"
    using assms(3) unfolding e(1) .
  have g: "generate_markdown_from_directory U input_name input_dir extensions True exclude_dirs w =
     generate_tree_output input_dir [ascii ''directory_tree.txt''] exclude_dirs ?w3"
    using assms(1,2) r e(2) enc
    by (simp add: generate_markdown_from_directory_def makedirs_def write_text_def)
  have "output_files ?w3 [ascii ''all_files.txt''] = Some (join (ascii ''---'' @ [0x0A]) acc)"
    by (simp add: log_def)
  with generate_tree_output_effect[of input_dir "[ascii ''directory_tree.txt'']" exclude_dirs ?w3] ne
  show ?thesis unfolding g e(1)[symmetric] by metis
qed

lemma selected_paths_mem:
  "p \<in> set (selected_paths U input_name extensions exclude_dirs ws) \<longleftrightarrow>
   (\<exists>root dirs files f. (root, dirs, files) \<in> set ws \<and>
      \<not> should_exclude_directory (root_name input_name root) exclude_dirs \<and>
      f \<in> set files \<and> selected U extensions f \<and> p = root @ [f])"
  by (fastforce simp: selected_paths_def split: if_splits)

subsection \<open>os.walk lists the directories of the tree, each once per occurrence\<close>

lemma walk_complete:
  "es' \<in> set (dirs_at p es) \<Longrightarrow>
     (root @ p, [entry_name e. e \<leftarrow> es', is_dir e], nondir_names es') \<in> set (walk root es)"
  "es' \<in> set (children_at n p es) \<Longrightarrow>
     (root @ n # p, [entry_name e. e \<leftarrow> es', is_dir e], nondir_names es') \<in> set (walk_dirs root es)"
proof (induction p es and n p es arbitrary: root es' and root es' rule: dirs_at_children_at.induct)
  case (1 es)
  then show ?case by (simp add: nondir_names_def)
next
  case (2 n p es)
  from "2.IH"[OF "2.prems"[simplified], of root] show ?case by simp
next
  case (3 n p)
  then show ?case by simp
next
  case (4 n p m es)
  from "4.IH"[of es' root] "4.prems" show ?case by simp
next
  case (5 n p m cs es)
  from "5.prems" consider "m = n" "es' \<in> set (dirs_at p cs)" | "es' \<in> set (children_at n p es)"
    by (auto split: if_splits)
  then show ?case
  proof cases
    case 1
    from "5.IH"(1)[OF 1, of "root @ [n]"] 1(1) show ?thesis by (simp del: walk.simps)
  next
    case 2
    from "5.IH"(2)[OF 2, of root] show ?thesis by (simp del: walk.simps)
  qed
qed

lemma walk_sound:
  "(q, ds, fs) \<in> set (walk root es) \<Longrightarrow>
     \<exists>p es'. q = root @ p \<and> es' \<in> set (dirs_at p es) \<and> fs = nondir_names es'"
  "(q, ds, fs) \<in> set (walk_dirs root es) \<Longrightarrow>
     \<exists>n p es'. q = root @ n # p \<and> es' \<in> set (children_at n p es) \<and> fs = nondir_names es'"
proof (induction root es and root es arbitrary: q ds fs and q ds fs rule: walk_walk_dirs.induct)
  case (1 root es)
  from "1.prems" consider "q = root" "fs = nondir_names es" | "(q, ds, fs) \<in> set (walk_dirs root es)"
    by (auto simp: nondir_names_def)
  then show ?case
  proof cases
    case 1
    then have "q = root @ [] \<and> es \<in> set (dirs_at [] es) \<and> fs = nondir_names es" by simp
    then show ?thesis by blast
  next
    case 2
    from "1.IH"[OF 2] obtain n p es' where
      "q = root @ n # p" "es' \<in> set (children_at n p es)" "fs = nondir_names es'" by blast
    then have "q = root @ (n # p) \<and> es' \<in> set (dirs_at (n # p) es) \<and> fs = nondir_names es'"
      by simp
    then show ?thesis by blast
  qed
next
  case (2 root)
  then show ?case by simp
next
  case (3 root n es)
  from "3.IH"[of q ds fs] "3.prems" show ?case by simp
next
  case (4 root n cs es)
  from "4.prems" consider "(q, ds, fs) \<in> set (walk (root @ [n]) cs)"
    | "(q, ds, fs) \<in> set (walk_dirs root es)"
    by (auto simp del: walk.simps)
  then show ?case
  proof cases
    case 1
    from "4.IH"(1)[OF 1] obtain p es' where
      "q = (root @ [n]) @ p" "es' \<in> set (dirs_at p cs)" "fs = nondir_names es'" by blast
    then have "q = root @ n # p \<and> es' \<in> set (children_at n p (Dir n cs # es)) \<and>
               fs = nondir_names es'" by simp
    then show ?thesis by blast
  next
    case 2
    from "4.IH"(2)[OF 2] obtain m p es' where
      "q = root @ m # p" "es' \<in> set (children_at m p es)" "fs = nondir_names es'" by blast
    then have "q = root @ m # p \<and> es' \<in> set (children_at m p (Dir n cs # es)) \<and>
               fs = nondir_names es'" by simp
    then show ?thesis by blast
  qed
qed

lemma selected_paths_tree:
  "q \<in> set (selected_paths U input_name extensions exclude_dirs (walk [] input_dir)) \<longleftrightarrow>
   (\<exists>p es f. q = p @ [f] \<and> es \<in> set (dirs_at p input_dir) \<and> f \<in> set (nondir_names es) \<and>
      \<not> should_exclude_directory (root_name input_name p) exclude_dirs \<and>
      selected U extensions f)"
proof
  assume "q \<in> set (selected_paths U input_name extensions exclude_dirs (walk [] input_dir))"
  then obtain root dirs files f where m: "(root, dirs, files) \<in> set (walk [] input_dir)"
    "\<not> should_exclude_directory (root_name input_name root) exclude_dirs"
    "f \<in> set files" "selected U extensions f" "q = root @ [f]"
    unfolding selected_paths_mem by blast
  from walk_sound(1)[OF m(1)] obtain es where "es \<in> set (dirs_at root input_dir)"
    "files = nondir_names es" by auto
  with m show "\<exists>p es f. q = p @ [f] \<and> es \<in> set (dirs_at p input_dir) \<and> f \<in> set (nondir_names es) \<and>
      \<not> should_exclude_directory (root_name input_name p) exclude_dirs \<and> selected U extensions f"
    by blast
next
  assume "\<exists>p es f. q = p @ [f] \<and> es \<in> set (dirs_at p input_dir) \<and> f \<in> set (nondir_names es) \<and>
      \<not> should_exclude_directory (root_name input_name p) exclude_dirs \<and> selected U extensions f"
  then obtain p es f where m: "q = p @ [f]" "es \<in> set (dirs_at p input_dir)"
    "f \<in> set (nondir_names es)"
    "\<not> should_exclude_directory (root_name input_name p) exclude_dirs" "selected U extensions f"
    by blast
  from walk_complete(1)[OF m(2), of "[]"]
  have "(p, [entry_name e. e \<leftarrow> es, is_dir e], nondir_names es) \<in> set (walk [] input_dir)"
    by simp
  with m show "q \<in> set (selected_paths U input_name extensions exclude_dirs (walk [] input_dir))"
    unfolding selected_paths_mem by blast
qed

subsection \<open>A dotfile name with an extension is no extension\<close>

lemma dotfile_key_matches_nothing:
  assumes "lower_keeps_dots U" "startswith name [0x2E]" "snd (splitext name) \<noteq> []"
  shows "\<not> selected U [name] f"
proof
  assume "selected U [name] f"
  then consider "lower U (snd (splitext f)) = name"
    | "lower U (snd (splitext f)) = []" "f = name"
    by (auto simp: selected_def)
  then show False
  proof cases
    case 1
    then have "dots name = dots (snd (splitext f))"
      using dots_lower[OF assms(1)] by metis
    with splitext_dots[of f] dotfile_ext_dots[OF assms(2,3)] show False by simp
  next
    case 2
    then have "dots (lower U (snd (splitext name))) = 0" by (simp add: dots_def)
    then have "dots (snd (splitext name)) = 0"
      using dots_lower[OF assms(1), of "snd (splitext name)"] by simp
    with splitext_ext_one_dot[OF assms(3)] show False by simp
  qed
qed

lemma selected_paths_dotfile_key:
  assumes "lower_keeps_dots U" "startswith name [0x2E]" "snd (splitext name) \<noteq> []"
  shows "selected_paths U input_name [name] exclude_dirs ws = []"
  using dotfile_key_matches_nothing[OF assms]
  by (induction ws) (auto simp: selected_paths_def)

section \<open>Claims about exclusion and the tree\<close>

text \<open>
  C1 fails on the code, in the content pass. \<open>generate_markdown_from_directory\<close> tests
  the name of each walked directory and skips its files, but \<open>os.walk\<close> still descends
  below it, and a directory below an excluded one has a name of its own. With the input
  \<open>node_modules/lib/index.js\<close> and \<open>app.js\<close>, the default exclusions and the extension
  \<open>.js\<close> selected: the catalog and the tree leave \<open>node_modules\<close> out, as the claim
  says, while the content pass reads \<open>node_modules/lib/index.js\<close> and writes its
  fragment below the output directory.
\<close>

theorem C1_excluded_subtree_is_converted:
  "should_exclude_directory (ascii ''node_modules'') [] \<and>
   discover_extensions latin1_table nested_in_excluded [] = [(ascii ''.js'', 1)] \<and>
   get_tree_structure [] [] [] nested_in_excluded =
     [([ascii ''app.js''], False, [0x2514, 0x2500, 0x2500, 0x20])] \<and>
   reads (snd (generate_markdown_from_directory latin1_table (ascii ''proj'') nested_in_excluded
            [ascii ''.js''] False [] (ok_world (readable_as (ascii ''x''))))) =
     [[ascii ''app.js''], [ascii ''node_modules'', ascii ''lib'', ascii ''index.js'']] \<and>
   output_files (snd (generate_markdown_from_directory latin1_table (ascii ''proj'')
            nested_in_excluded [ascii ''.js''] False [] (ok_world (readable_as (ascii ''x'')))))
       [ascii ''node_modules'', ascii ''lib'', ascii ''node_modules_lib_index_js.txt''] =
     Some (markdown_output (ascii ''node_modules/lib/index.js'') (ascii ''js'') (ascii ''x''))"
  by (simp add: eval_defs nested_in_excluded_def sanitise_eval markdown_output_def)

text \<open>
  C4 fails on the code. \<open>is_last\<close> compares the index of an entry with the number of
  all sorted entries, the excluded ones included. With the subdirectories \<open>docs\<close>
  (holding \<open>a.md\<close>) and \<open>node_modules\<close>, \<open>docs\<close> is the last sibling that is shown, and
  it is drawn with the tee connector and its child with the bar indent; no line at the
  top level carries the corner connector.
\<close>

theorem C4_last_included_sibling_gets_tee:
  "should_exclude_directory (ascii ''node_modules'') [] \<and>
   get_tree_structure [] [] [] last_sibling_excluded =
     [([ascii ''docs''], True, [0x251C, 0x2500, 0x2500, 0x20]),
      ([ascii ''docs'', ascii ''a.md''], False,
       [0x2502, 0x20, 0x20, 0x20, 0x2514, 0x2500, 0x2500, 0x20])] \<and>
   tree_text last_sibling_excluded [] =
     join [0x0A] [ascii ''.'',
                  [0x251C, 0x2500, 0x2500, 0x20] @ ascii ''docs'',
                  [0x2502, 0x20, 0x20, 0x20, 0x2514, 0x2500, 0x2500, 0x20] @ ascii ''a.md'',
                  [],
                  ascii ''1 directories, 1 files'']"
  by (simp add: eval_defs last_sibling_excluded_def py_str.simps)

section \<open>Claims about sanitise\_filename\<close>




text \<open>
  C5, as stated, fails: U+0130 is a word character whose lowercase form is the letter i
  followed by the combining mark U+0307, which is not a word character. The first pass
  keeps the mark, the second pass replaces it by an underscore.
\<close>

theorem C5_not_idempotent_at_U0130:
  "sanitise_filename latin1_table [0x130] = [0x69, 0x307] \<and>
   sanitise_filename latin1_table (sanitise_filename latin1_table [0x130]) = [0x69, 0x5F]"
  by (simp add: sanitise_eval)

text \<open>
  C5, amended: \<open>sanitise_filename\<close> is idempotent on every string that does not hold
  the code point U+0130: sanitising the result again returns it unchanged. The facts of
  the database used: its ASCII part; a code point of a lowercase form is its own
  lowercase form; whitespace has no case; and U+0130 is the only alphanumeric code
  point whose lowercase form is not alphanumeric throughout.
\<close>

theorem C5_sanitise_idempotent:
  assumes "ascii_table U" and "lower_settled U" and "space_caseless U" and "lower_keeps_words U"
    and "0x130 \<notin> set x"
  shows "sanitise_filename U (sanitise_filename U x) = sanitise_filename U x"
  using sanitise_stable_chars[OF assms] sanitise_stable by blast

theorem C5_sanitise_idempotent_witness:
  "ascii_table latin1_table \<and> lower_settled latin1_table \<and> space_caseless latin1_table \<and>
   lower_keeps_words latin1_table \<and>
   0x130 \<notin> set (ascii ''a - b/'' @ [0xC9, 0x3A3]) \<and>
   sanitise_filename latin1_table (ascii ''a - b/'' @ [0xC9, 0x3A3]) = ascii ''a_b_'' @ [0xE9, 0x3C2] \<and>
   sanitise_filename latin1_table (sanitise_filename latin1_table (ascii ''a - b/'' @ [0xC9, 0x3A3])) =
     ascii ''a_b_'' @ [0xE9, 0x3C2]"
proof -
  have h: "0x130 \<notin> set (ascii ''a - b/'' @ [0xC9, 0x3A3])"
    by (simp add: ascii_def)
  have e: "sanitise_filename latin1_table (ascii ''a - b/'' @ [0xC9, 0x3A3]) =
           ascii ''a_b_'' @ [0xE9, 0x3C2]"
    by (simp add: sanitise_eval)
  from C5_sanitise_idempotent[OF latin1_ascii_table latin1_lower_settled latin1_space_caseless
      latin1_lower_keeps_words h] e h latin1_facts
  show ?thesis by simp
qed

section \<open>Claims about extension matching\<close>




text \<open>
  C8: when every directory of the output can be created, the files that the content
  pass opens are, in walk order, the selected paths. A path is selected if and only if
  it is the path of a file \<open>f\<close> in a directory of the input tree, at any depth, whose own
  name is not excluded, and \<open>f\<close> passes the test. So for a file \<open>f\<close> of such a directory:
  it is opened if and only if its name is neither \<open>.DS_Store\<close> nor \<open>.env\<close> and either its
  lowercase extension is selected, or its extension is empty and its full name is
  selected. No file named \<open>.DS_Store\<close> or \<open>.env\<close> is opened, whatever the selection. The
  fact of the database used: no lowercase form is empty.
\<close>

theorem C8_content_pass_selection:
  assumes "lower_nonempty U" and "\<forall>p. can_mkdir w p"
  shows "reads (snd (generate_markdown_from_directory U input_name input_dir extensions single_file
                       exclude_dirs w)) =
           reads w @ selected_paths U input_name extensions exclude_dirs (walk [] input_dir) \<and>
         (\<forall>q. q \<in> set (selected_paths U input_name extensions exclude_dirs (walk [] input_dir)) \<longleftrightarrow>
            (\<exists>p es f. q = p @ [f] \<and> es \<in> set (dirs_at p input_dir) \<and> f \<in> set (nondir_names es) \<and>
               \<not> should_exclude_directory (root_name input_name p) exclude_dirs \<and>
               spec_selected U extensions f)) \<and>
         (\<forall>p es f.
            es \<in> set (dirs_at p input_dir) \<and> f \<in> set (nondir_names es) \<and>
            \<not> should_exclude_directory (root_name input_name p) exclude_dirs \<longrightarrow>
            (p @ [f] \<in> set (selected_paths U input_name extensions exclude_dirs (walk [] input_dir)) \<longleftrightarrow>
             f \<noteq> ascii ''.DS_Store'' \<and> f \<noteq> ascii ''.env'' \<and>
             (lower U (snd (splitext f)) \<in> set extensions \<or>
              (snd (splitext f) = [] \<and> f \<in> set extensions)))) \<and>
         (\<forall>q \<in> set (selected_paths U input_name extensions exclude_dirs (walk [] input_dir)).
            basename q \<noteq> ascii ''.DS_Store'' \<and> basename q \<noteq> ascii ''.env'')"
proof -
  note sel = selected_spec[OF assms(1)]
  have a: "\<forall>q. q \<in> set (selected_paths U input_name extensions exclude_dirs (walk [] input_dir)) \<longleftrightarrow>
            (\<exists>p es f. q = p @ [f] \<and> es \<in> set (dirs_at p input_dir) \<and> f \<in> set (nondir_names es) \<and>
               \<not> should_exclude_directory (root_name input_name p) exclude_dirs \<and>
               spec_selected U extensions f)"
    unfolding selected_paths_tree sel by blast
  have b: "\<forall>p es f.
            es \<in> set (dirs_at p input_dir) \<and> f \<in> set (nondir_names es) \<and>
            \<not> should_exclude_directory (root_name input_name p) exclude_dirs \<longrightarrow>
            (p @ [f] \<in> set (selected_paths U input_name extensions exclude_dirs (walk [] input_dir)) \<longleftrightarrow>
             spec_selected U extensions f)"
    unfolding selected_paths_tree sel by auto
  have c: "\<forall>q \<in> set (selected_paths U input_name extensions exclude_dirs (walk [] input_dir)).
            basename q \<noteq> ascii ''.DS_Store'' \<and> basename q \<noteq> ascii ''.env''"
  proof
    fix q
    assume "q \<in> set (selected_paths U input_name extensions exclude_dirs (walk [] input_dir))"
    then obtain p f where "q = p @ [f]" "selected U extensions f"
      unfolding selected_paths_tree by blast
    then show "basename q \<noteq> ascii ''.DS_Store'' \<and> basename q \<noteq> ascii ''.env''"
      by (simp add: selected_def)
  qed
  from gmfd_reads[OF assms(2)] a b c show ?thesis
    unfolding spec_selected_def by simp
qed

theorem C8_content_pass_selection_witness:
  "lower_nonempty latin1_table \<and>
   [File (ascii ''d.py''), Dir (ascii ''util'') [File (ascii ''E.Py'')]] \<in>
     set (dirs_at [ascii ''src''] mixed_case_tree) \<and>
   reads (snd (generate_markdown_from_directory latin1_table (ascii ''proj'') mixed_case_tree
                [ascii ''.py'', ascii ''README'', ascii ''.env''] True []
                (ok_world (readable_as [])))) =
     [[ascii ''a.py''], [ascii ''README''], [ascii ''B.PY''], [ascii ''src'', ascii ''d.py''],
      [ascii ''src'', ascii ''util'', ascii ''E.Py'']] \<and>
   [ascii ''src'', ascii ''d.py''] \<in>
     set (selected_paths latin1_table (ascii ''proj'') [ascii ''.py'', ascii ''README'', ascii ''.env'']
            [] (walk [] mixed_case_tree)) \<and>
   [ascii ''.git'', ascii ''c.py''] \<notin>
     set (selected_paths latin1_table (ascii ''proj'') [ascii ''.py'', ascii ''README'', ascii ''.env'']
            [] (walk [] mixed_case_tree))"
proof -
  have h: "\<forall>p. can_mkdir (ok_world (readable_as [])) p"
    by (simp add: ok_world_def)
  have d: "[File (ascii ''d.py''), Dir (ascii ''util'') [File (ascii ''E.Py'')]] \<in>
     set (dirs_at [ascii ''src''] mixed_case_tree)"
    by (simp add: mixed_case_tree_def ascii_def)
  have s: "selected_paths latin1_table (ascii ''proj'') [ascii ''.py'', ascii ''README'', ascii ''.env'']
          [] (walk [] mixed_case_tree) =
        [[ascii ''a.py''], [ascii ''README''], [ascii ''B.PY''], [ascii ''src'', ascii ''d.py''],
         [ascii ''src'', ascii ''util'', ascii ''E.Py'']]"
    by (simp add: mixed_case_tree_def selected_paths_def selected_def ascii_def
        should_exclude_directory_def root_name_def basename_def splitext_def table_eval)
  from C8_content_pass_selection[OF latin1_lower_nonempty h, of "ascii ''proj''" mixed_case_tree
      "[ascii ''.py'', ascii ''README'', ascii ''.env'']" True "[]"]
  have "reads (snd (generate_markdown_from_directory latin1_table (ascii ''proj'') mixed_case_tree
                [ascii ''.py'', ascii ''README'', ascii ''.env''] True []
                (ok_world (readable_as [])))) =
     reads (ok_world (readable_as [])) @
     selected_paths latin1_table (ascii ''proj'') [ascii ''.py'', ascii ''README'', ascii ''.env'']
          [] (walk [] mixed_case_tree)"
    by blast
  with s d latin1_lower_nonempty show ?thesis
    by (simp add: ok_world_def ascii_def)
qed

text \<open>
  C9: let a file name start with a dot and have a non-empty extension, as
  \<open>.env.local\<close> has. If the scan of \<open>discover_extensions\<close> reaches a file of that name,
  the full name is a key of the catalog. With that key as the only selected one, the
  content pass selects no path and opens no file: the test compares the lowercase
  extension, which has one dot where the key has two, and falls back to the full name
  only for a file without extension. The fact of the database used: the dot is its own
  lowercase form and stands in no other.
\<close>

theorem C9_dotfile_with_extension_never_matches:
  assumes "lower_keeps_dots U"
    and "startswith name [0x2E]" and "snd (splitext name) \<noteq> []"
    and "name \<in> set (scanned_files exclude_dirs input_dir)"
    and "\<forall>p. can_mkdir w p"
  shows "name \<in> fst ` set (discover_extensions U input_dir exclude_dirs) \<and>
         selected_paths U input_name [name] exclude_dirs (walk [] input_dir) = [] \<and>
         reads (snd (generate_markdown_from_directory U input_name input_dir [name] single_file
                       exclude_dirs w)) = reads w \<and>
         (\<forall>f. \<not> (f \<noteq> ascii ''.DS_Store'' \<and> f \<noteq> ascii ''.env'' \<and>
                 (lower U (snd (splitext f)) \<in> set [name] \<or>
                  (lower U (snd (splitext f)) = [] \<and> f \<in> set [name]))))"
proof -
  have "catalog_key U name = name" using assms(2) by (simp add: catalog_key_def)
  with assms(4) have a: "name \<in> fst ` set (discover_extensions U input_dir exclude_dirs)"
    unfolding discover_extensions_def scan_directory_key_set by force
  have b: "selected_paths U input_name [name] exclude_dirs (walk [] input_dir) = []"
    by (rule selected_paths_dotfile_key[OF assms(1-3)])
  have c: "\<forall>f. \<not> (f \<noteq> ascii ''.DS_Store'' \<and> f \<noteq> ascii ''.env'' \<and>
                 (lower U (snd (splitext f)) \<in> set [name] \<or>
                  (lower U (snd (splitext f)) = [] \<and> f \<in> set [name])))"
    using dotfile_key_matches_nothing[OF assms(1-3)]
    by (simp add: selected_def)
  from a b c gmfd_reads[OF assms(5), of U input_name input_dir "[name]" single_file exclude_dirs]
  show ?thesis by simp
qed

theorem C9_dotfile_with_extension_never_matches_witness:
  "lower_keeps_dots latin1_table \<and>
   startswith (ascii ''.env.local'') [0x2E] \<and>
   snd (splitext (ascii ''.env.local'')) = ascii ''.local'' \<and>
   discover_extensions latin1_table dotfile_tree [] =
     [(ascii ''.env.local'', 1), (ascii ''.local'', 1)] \<and>
   reads (snd (generate_markdown_from_directory latin1_table (ascii ''proj'') dotfile_tree
                 [ascii ''.env.local''] False [] (ok_world (readable_as [])))) = []"
proof -
  have h1: "startswith (ascii ''.env.local'') [0x2E]"
    by (simp add: startswith_def ascii_def)
  have e: "snd (splitext (ascii ''.env.local'')) = ascii ''.local''"
    by (simp add: splitext_def ascii_def)
  then have h2: "snd (splitext (ascii ''.env.local'')) \<noteq> []"
    by (simp add: ascii_def)
  have h3: "ascii ''.env.local'' \<in> set (scanned_files [] dotfile_tree)"
    by (simp add: dotfile_tree_def should_exclude_directory_def ascii_def)
  have h4: "\<forall>p. can_mkdir (ok_world (readable_as [])) p"
    by (simp add: ok_world_def)
  have d: "discover_extensions latin1_table dotfile_tree [] =
           [(ascii ''.env.local'', 1), (ascii ''.local'', 1)]"
    by (simp add: eval_defs dotfile_tree_def)
  from C9_dotfile_with_extension_never_matches[OF latin1_lower_keeps_dots h1 h2 h3 h4,
      of "ascii ''proj''" False] latin1_lower_keeps_dots h1 e d
  show ?thesis by (simp add: ok_world_def)
qed

section \<open>Claims about the written files\<close>

text \<open>
  C6, as stated, fails when the name of a selected file is not valid UTF-8: the
  name reaches the program with a surrogate code point, the fragment is rendered and
  collected, and the write of the joined text raises \<open>UnicodeEncodeError\<close> after
  \<open>all_files.txt\<close> was created. The file is left empty, not holding the fragment, and
  the exception leaves \<open>generate_markdown_from_directory\<close>.
\<close>

theorem C6_unencodable_name_leaves_file_empty:
  "concat (map (fragment_of latin1_table (contents (ok_world (readable_as (ascii ''A'')))))
     (selected_paths latin1_table (ascii ''proj'') [ascii ''.py''] []
        (walk [] [File ([0xDCFF] @ ascii ''.py'')]))) =
     [markdown_output ([0xDCFF] @ ascii ''.py'') (ascii ''py'') (ascii ''A'')] \<and>
   fst (generate_markdown_from_directory latin1_table (ascii ''proj'')
          [File ([0xDCFF] @ ascii ''.py'')] [ascii ''.py''] True []
          (ok_world (readable_as (ascii ''A'')))) = Raised UnicodeEncodeError \<and>
   output_files (snd (generate_markdown_from_directory latin1_table (ascii ''proj'')
          [File ([0xDCFF] @ ascii ''.py'')] [ascii ''.py''] True []
          (ok_world (readable_as (ascii ''A''))))) [ascii ''all_files.txt''] = Some []"
  by (simp add: eval_defs markdown_output_def)

text \<open>
  C6, amended: in single-file mode, when the output directory and \<open>all_files.txt\<close> can
  be created and the joined text holds no surrogate code point (every selected file
  name is valid UTF-8), the text written to \<open>all_files.txt\<close> is the concatenation of the
  list \<open>[f1, sep, f2, ..., sep, fn]\<close>, where \<open>f1, ..., fn\<close> are the fragments of the
  selected files that could be read, in walk order, and \<open>sep\<close> is \<open>---\<close> followed by a
  newline. That list has \<open>2 * n - 1\<close> elements: the fragments at the even positions,
  the separator at the odd ones, \<open>n - 1\<close> separators in all and none after the last
  fragment.
\<close>

theorem C6_all_files_joined:
  assumes "can_mkdir w []" and "can_write w [ascii ''all_files.txt'']"
    and "encodable (join (ascii ''---'' @ [0x0A])
           (concat (map (fragment_of U (contents w))
              (selected_paths U input_name extensions exclude_dirs (walk [] input_dir)))))"
  shows "let fragments = concat (map (fragment_of U (contents w))
                           (selected_paths U input_name extensions exclude_dirs (walk [] input_dir)));
             sep = ascii ''---'' @ [0x0A]
         in output_files (snd (generate_markdown_from_directory U input_name input_dir extensions True
                                 exclude_dirs w)) [ascii ''all_files.txt''] =
              Some (concat (separated sep fragments)) \<and>
            length (separated sep fragments) = 2 * length fragments - 1 \<and>
            (\<forall>i < length fragments. separated sep fragments ! (2 * i) = fragments ! i) \<and>
            (\<forall>i. Suc i < length fragments \<longrightarrow> separated sep fragments ! (2 * i + 1) = sep)"
proof -
  define fragments where "fragments = concat (map (fragment_of U (contents w))
      (selected_paths U input_name extensions exclude_dirs (walk [] input_dir)))"
  define sep where "sep = ascii ''---'' @ [0x0A]"
  have 1: "output_files (snd (generate_markdown_from_directory U input_name input_dir extensions True
              exclude_dirs w)) [ascii ''all_files.txt''] = Some (concat (separated sep fragments))"
    using gmfd_all_files[OF assms]
    unfolding fragments_def sep_def join_separated .
  have 2: "length (separated sep fragments) = 2 * length fragments - 1"
    by (rule length_separated)
  have 3: "\<forall>i < length fragments. separated sep fragments ! (2 * i) = fragments ! i"
    by (simp add: separated_even)
  have 4: "\<forall>i. Suc i < length fragments \<longrightarrow> separated sep fragments ! (2 * i + 1) = sep"
    by (simp add: separated_odd)
  show ?thesis
    unfolding Let_def fragments_def[symmetric] sep_def[symmetric]
    by (intro conjI 1 2 3 4)
qed

theorem C6_all_files_joined_witness:
  "output_files (snd (generate_markdown_from_directory latin1_table (ascii ''proj'') two_matching
       [ascii ''.py'', ascii ''.png''] True [] (ok_world two_matching_contents)))
     [ascii ''all_files.txt''] =
     Some (markdown_output (ascii ''a.py'') (ascii ''py'') (ascii ''A'') @
           ascii ''---'' @ [0x0A] @
           markdown_output (ascii ''src/b.py'') (ascii ''py'') (ascii ''B''))"
proof -
  have h: "can_mkdir (ok_world two_matching_contents) []"
    "can_write (ok_world two_matching_contents) [ascii ''all_files.txt'']"
    by (simp_all add: ok_world_def)
  have f: "concat (map (fragment_of latin1_table (contents (ok_world two_matching_contents)))
             (selected_paths latin1_table (ascii ''proj'') [ascii ''.py'', ascii ''.png''] []
                (walk [] two_matching))) =
           [markdown_output (ascii ''a.py'') (ascii ''py'') (ascii ''A''),
            markdown_output (ascii ''src/b.py'') (ascii ''py'') (ascii ''B'')]"
    by (simp add: two_matching_def two_matching_contents_def selected_paths_def selected_def
        fragment_of_def ascii_def should_exclude_directory_def root_name_def basename_def
        splitext_def table_eval relpath_def ok_world_def)
  have e: "encodable (join (ascii ''---'' @ [0x0A])
           (concat (map (fragment_of latin1_table (contents (ok_world two_matching_contents)))
             (selected_paths latin1_table (ascii ''proj'') [ascii ''.py'', ascii ''.png''] []
                (walk [] two_matching)))))"
    unfolding f by (simp add: encodable_def markdown_output_def ascii_def)
  from C6_all_files_joined[OF h e]
  show ?thesis
    unfolding Let_def f by simp
qed

text \<open>
  C7, as stated, fails: the contents of the file do not reach the fragment byte for
  byte. The file is opened in text mode, and a file that holds \<open>a\<close>, a carriage return,
  a line feed and \<open>b\<close> is rendered with \<open>a\<close>, a line feed and \<open>b\<close>.
\<close>

theorem C7_line_endings_are_translated:
  "output_files (snd (generate_markdown_from_file [ascii ''w.txt''] [ascii ''w_txt.txt'']
       (ascii ''w.txt'') (ascii ''txt'') (ok_world (readable_as (ascii ''a'' @ [0x0D, 0x0A] @ ascii ''b'')))))
     [ascii ''w_txt.txt''] =
     Some (markdown_output (ascii ''w.txt'') (ascii ''txt'') (ascii ''a'' @ [0x0A] @ ascii ''b'')) \<and>
   markdown_output (ascii ''w.txt'') (ascii ''txt'') (ascii ''a'' @ [0x0A] @ ascii ''b'') \<noteq>
   markdown_output (ascii ''w.txt'') (ascii ''txt'') (ascii ''a'' @ [0x0D, 0x0A] @ ascii ''b'')"
  by (simp add: eval_defs markdown_output_def)

text \<open>
  C7, amended: for every relative path \<open>p\<close>, text \<open>c\<close> and language tag \<open>g\<close>, the fragment
  is the header line with \<open>p\<close>, the label line, then \<open>c\<close> inside a fence tagged \<open>g\<close> when
  \<open>g\<close> is not empty and the bare \<open>c\<close> otherwise; \<open>c\<close> stands in it unchanged, the
  fragment ends with two newlines, and the path \<open>a/b.py\<close> with language \<open>py\<close> and text
  \<open>print("hi")\<close> gives the seven lines of the example. The text \<open>c\<close> that is rendered
  for a file is what reading it in text mode returns: its decoded contents with every
  carriage return, and every carriage return with the line feed after it, replaced by
  one line feed; contents without a carriage return are rendered as they are. That
  fragment is what \<open>generate_markdown_from_file\<close> writes to its output file when the
  output can be opened and the fragment encoded, and what the single-file branch
  appends.
\<close>

theorem C7_markdown_output_exact:
  "markdown_output p g c =
     ascii ''# File Name: '' @ p @ [0x0A] @ ascii ''# File Contents:'' @ [0x0A] @
     (if g = [] then c @ [0x0A, 0x0A]
      else ascii ''```'' @ g @ [0x0A] @ c @ [0x0A] @ ascii ''```'' @ [0x0A, 0x0A])
   \<and> drop (length (markdown_output p g c) - 2) (markdown_output p g c) = [0x0A, 0x0A]
   \<and> markdown_output (ascii ''a/b.py'') (ascii ''py'') (ascii ''print(\"hi\")'') =
       join [0x0A] [ascii ''# File Name: a/b.py'', ascii ''# File Contents:'', ascii ''```py'',
                    ascii ''print(\"hi\")'', ascii ''```'', [], []]
   \<and> (contents w i = Inr decoded \<and> can_write w out \<and>
        encodable (markdown_output p g (universal_newlines False decoded)) \<longrightarrow>
        output_files (snd (generate_markdown_from_file i out p g w)) out =
          Some (markdown_output p g (universal_newlines False decoded)))
   \<and> (contents w i = Inr decoded \<longrightarrow>
        fst (append_markdown i p g (acc, w)) =
          acc @ [markdown_output p g (universal_newlines False decoded)])
   \<and> (0x0D \<notin> set decoded \<longrightarrow> universal_newlines False decoded = decoded)"
proof -
  have tail: "drop (length (xs @ [a, b]) - 2) (xs @ [a, b]) = [a, b]" for xs :: pystr and a b
    by simp
  have "drop (length (markdown_output p g c) - 2) (markdown_output p g c) = [0x0A, 0x0A]"
  proof (cases "g = []")
    case True
    then have "markdown_output p g c =
        (ascii ''# File Name: '' @ p @ [0x0A] @ ascii ''# File Contents:'' @ [0x0A] @ c) @ [0x0A, 0x0A]"
      by (simp add: markdown_output_def)
    then show ?thesis by (simp only: tail)
  next
    case False
    then have "markdown_output p g c =
        (ascii ''# File Name: '' @ p @ [0x0A] @ ascii ''# File Contents:'' @ [0x0A] @
         ascii ''```'' @ g @ [0x0A] @ c @ [0x0A] @ ascii ''```'') @ [0x0A, 0x0A]"
      by (simp add: markdown_output_def)
    then show ?thesis by (simp only: tail)
  qed
  moreover have "markdown_output p g c =
     ascii ''# File Name: '' @ p @ [0x0A] @ ascii ''# File Contents:'' @ [0x0A] @
     (if g = [] then c @ [0x0A, 0x0A]
      else ascii ''```'' @ g @ [0x0A] @ c @ [0x0A] @ ascii ''```'' @ [0x0A, 0x0A])"
    by (simp add: markdown_output_def)
  moreover have "markdown_output (ascii ''a/b.py'') (ascii ''py'') (ascii ''print(\"hi\")'') =
       join [0x0A] [ascii ''# File Name: a/b.py'', ascii ''# File Contents:'', ascii ''```py'',
                    ascii ''print(\"hi\")'', ascii ''```'', [], []]"
    by (simp add: markdown_output_def ascii_def)
  ultimately show ?thesis
    using gmff_readable[of w i decoded out p g] append_markdown_readable[of w i decoded p g acc]
      universal_newlines_no_cr[of decoded]
    by blast
qed

theorem C7_markdown_output_exact_witness:
  "contents (ok_world (readable_as (ascii ''print(\"hi\")''))) [ascii ''a'', ascii ''b.py''] =
     Inr (ascii ''print(\"hi\")'') \<and>
   can_write (ok_world (readable_as (ascii ''print(\"hi\")''))) [ascii ''a'', ascii ''a_b_py.txt''] \<and>
   encodable (markdown_output (ascii ''a/b.py'') (ascii ''py'')
                (universal_newlines False (ascii ''print(\"hi\")''))) \<and>
   output_files (snd (generate_markdown_from_file [ascii ''a'', ascii ''b.py'']
       [ascii ''a'', ascii ''a_b_py.txt''] (ascii ''a/b.py'') (ascii ''py'')
       (ok_world (readable_as (ascii ''print(\"hi\")''))))) [ascii ''a'', ascii ''a_b_py.txt''] =
     Some (join [0x0A] [ascii ''# File Name: a/b.py'', ascii ''# File Contents:'', ascii ''```py'',
                        ascii ''print(\"hi\")'', ascii ''```'', [], []])"
proof -
  let ?w = "ok_world (readable_as (ascii ''print(\"hi\")''))"
  have h: "contents ?w [ascii ''a'', ascii ''b.py''] = Inr (ascii ''print(\"hi\")'')"
    "can_write ?w [ascii ''a'', ascii ''a_b_py.txt'']"
    "encodable (markdown_output (ascii ''a/b.py'') (ascii ''py'')
                (universal_newlines False (ascii ''print(\"hi\")'')))"
    by (simp_all add: ok_world_def encodable_def markdown_output_def ascii_def)
  have n: "universal_newlines False (ascii ''print(\"hi\")'') = ascii ''print(\"hi\")''"
    by (simp add: ascii_def)
  have "output_files (snd (generate_markdown_from_file [ascii ''a'', ascii ''b.py'']
       [ascii ''a'', ascii ''a_b_py.txt''] (ascii ''a/b.py'') (ascii ''py'') ?w))
       [ascii ''a'', ascii ''a_b_py.txt''] =
     Some (markdown_output (ascii ''a/b.py'') (ascii ''py'')
             (universal_newlines False (ascii ''print(\"hi\")'')))"
    using h C7_markdown_output_exact[where p = "ascii ''a/b.py''" and g = "ascii ''py''"
        and decoded = "ascii ''print(\"hi\")''" and w = ?w and i = "[ascii ''a'', ascii ''b.py'']"
        and out = "[ascii ''a'', ascii ''a_b_py.txt'']"]
    by blast
  moreover have "markdown_output (ascii ''a/b.py'') (ascii ''py'') (ascii ''print(\"hi\")'') =
       join [0x0A] [ascii ''# File Name: a/b.py'', ascii ''# File Contents:'', ascii ''```py'',
                    ascii ''print(\"hi\")'', ascii ''```'', [], []]"
    by (simp add: markdown_output_def ascii_def)
  ultimately show ?thesis using h n by simp
qed

text \<open>
  C10: when reading the input file raises, \<open>generate_markdown_from_file\<close> returns
  without raising and the files below the output directory are what they were: no
  output file is created or truncated. The input was opened, one record was logged (a
  warning for \<open>UnicodeDecodeError\<close>, an error for any other exception), and nothing
  else was done.
\<close>

theorem C10_read_failure_writes_nothing:
  assumes "contents w input_filepath = Inl e"
  shows "fst (generate_markdown_from_file input_filepath output_filepath rel_path language w) = Returned \<and>
         output_files (snd (generate_markdown_from_file input_filepath output_filepath rel_path language w)) =
           output_files w \<and>
         reads (snd (generate_markdown_from_file input_filepath output_filepath rel_path language w)) =
           reads w @ [input_filepath] \<and>
         logs (snd (generate_markdown_from_file input_filepath output_filepath rel_path language w)) =
           logs w @ [(case e of UnicodeDecodeError \<Rightarrow> WARNING | UnicodeEncodeError \<Rightarrow> ERROR
                      | OSError \<Rightarrow> ERROR, input_filepath)]"
  using gmff_effect[of input_filepath output_filepath rel_path language w]
    gmff_unreadable[OF assms, of output_filepath rel_path language]
    gmff_unreadable_log[OF assms, of output_filepath rel_path language]
  by simp

theorem C10_read_failure_writes_nothing_witness:
  "contents (ok_world undecodable) [ascii ''logo.png''] = Inl UnicodeDecodeError \<and>
   fst (generate_markdown_from_file [ascii ''logo.png''] [ascii ''logo_png.txt''] (ascii ''logo.png'')
          (ascii ''png'') (ok_world undecodable)) = Returned \<and>
   output_files (snd (generate_markdown_from_file [ascii ''logo.png''] [ascii ''logo_png.txt'']
          (ascii ''logo.png'') (ascii ''png'') (ok_world undecodable)))
     [ascii ''logo_png.txt''] = None"
proof -
  have h: "contents (ok_world undecodable) [ascii ''logo.png''] = Inl UnicodeDecodeError"
    by (simp add: ok_world_def)
  from C10_read_failure_writes_nothing[OF h, of "[ascii ''logo_png.txt'']" "ascii ''logo.png''" "ascii ''png''"] h
  show ?thesis by (simp add: ok_world_def)
qed

end
